theory Spec2Isabelle
  imports Main
begin

section \<open>JavaScript values\<close>

text \<open>
  The payloads, arguments and registered methods of \<^verbatim>\<open>WebMessageRPC.ts\<close> are untyped
  JavaScript values (\<^verbatim>\<open>any\<close>).  A plain object is the list of its own enumerable
  properties in enumeration order; a property read takes the first entry of a name.
  \<open>JError name message\<close> is an instance of the standard \<^verbatim>\<open>Error\<close> class.  \<open>JFun n\<close>
  is a function of the embedding program, known by a number; its body is given by the
  environment.  \<open>JForwarder ref\<close> is the arrow function that \<^verbatim>\<open>messageHandler\<close> puts in
  place of the callback reference \<open>ref\<close>.  Numbers are integers: the program only tests
  a number for being zero.  Symbols and BigInts do not occur.
\<close>

datatype jsval =
    JUndefined
  | JNull
  | JBool bool
  | JNum int
  | JStr string
  | JArr "jsval list"
  | JObj "(string \<times> jsval) list"
  | JError string string
  | JFun nat
  | JForwarder jsval

datatype jstype = TUndefined | TObject | TBoolean | TNumber | TString | TFunction

fun typeof :: "jsval \<Rightarrow> jstype" where
  "typeof JUndefined = TUndefined"
| "typeof JNull = TObject"
| "typeof (JBool b) = TBoolean"
| "typeof (JNum n) = TNumber"
| "typeof (JStr s) = TString"
| "typeof (JArr xs) = TObject"
| "typeof (JObj kvs) = TObject"
| "typeof (JError n m) = TObject"
| "typeof (JFun f) = TFunction"
| "typeof (JForwarder r) = TFunction"

text \<open>The truth value a condition, \<^verbatim>\<open>&&\<close>, \<^verbatim>\<open>||\<close>, \<^verbatim>\<open>!\<close> or \<^verbatim>\<open>?:\<close> sees.\<close>

fun truthy :: "jsval \<Rightarrow> bool" where
  "truthy JUndefined = False"
| "truthy JNull = False"
| "truthy (JBool b) = b"
| "truthy (JNum n) = (n \<noteq> 0)"
| "truthy (JStr s) = (s \<noteq> [])"
| "truthy (JArr xs) = True"
| "truthy (JObj kvs) = True"
| "truthy (JError n m) = True"
| "truthy (JFun f) = True"
| "truthy (JForwarder r) = True"

text \<open>
  \<^verbatim>\<open>v?.k\<close>, and \<^verbatim>\<open>v.k\<close> where \<open>v\<close> is known not to be null or undefined, for the
  property names the program reads: \<^verbatim>\<open>type\<close>, \<^verbatim>\<open>method\<close>, \<^verbatim>\<open>args\<close>, \<^verbatim>\<open>token\<close>,
  \<^verbatim>\<open>result\<close>, \<^verbatim>\<open>data\<close>, \<^verbatim>\<open>error\<close>, \<^verbatim>\<open>__rpc_callback__\<close>, \<^verbatim>\<open>callbackMethodName\<close>,
  \<^verbatim>\<open>message\<close> and \<^verbatim>\<open>name\<close>.  None of them is a property of a primitive, an array or a
  function, so a read there gives \<^verbatim>\<open>undefined\<close>.
\<close>

fun get_field :: "jsval \<Rightarrow> string \<Rightarrow> jsval" where
  "get_field (JObj kvs) k = (case map_of kvs k of Some v \<Rightarrow> v | None \<Rightarrow> JUndefined)"
| "get_field (JError n m) k =
     (if k = ''name'' then JStr n else if k = ''message'' then JStr m else JUndefined)"
| "get_field v k = JUndefined"

text \<open>
  \<^verbatim>\<open>Number.prototype.toString(radix)\<close> on a natural number: the digits
  \<^verbatim>\<open>0-9a-z\<close>, most significant first.
\<close>

definition digit_char :: "nat \<Rightarrow> char" where
  "digit_char d = ''0123456789abcdefghijklmnopqrstuvwxyz'' ! d"

function to_radix :: "nat \<Rightarrow> nat \<Rightarrow> string" where
  "to_radix b n =
     (if b < 2 \<or> n < b then [digit_char n]
      else to_radix b (n div b) @ [digit_char (n mod b)])"
  by pat_completeness auto
termination
  by (relation "measure (\<lambda>(b, n). n)") auto

text \<open>
  \<^verbatim>\<open>Object.entries\<close>: the properties of a plain object, the indexed elements of an
  array or of a string; nothing for the other values (the \<^verbatim>\<open>message\<close> of an
  \<^verbatim>\<open>Error\<close> is not enumerable).
\<close>

definition indexed :: "jsval list \<Rightarrow> (string \<times> jsval) list" where
  "indexed xs = zip (map (to_radix 10) [0 ..< length xs]) xs"

fun object_entries :: "jsval \<Rightarrow> (string \<times> jsval) list" where
  "object_entries (JObj kvs) = kvs"
| "object_entries (JArr xs) = indexed xs"
| "object_entries (JStr s) = indexed (map (\<lambda>c. JStr [c]) s)"
| "object_entries v = []"

section \<open>The environment and the instance\<close>

text \<open>
  How a call of a function of the embedding program ends: it returns a value, throws,
  returns a promise of its own that is fulfilled or rejected later, returns the promise
  of a call of the proxy (known by its number among the futures), or returns a promise
  of its own that stays pending.
\<close>

datatype outcome =
    Returns jsval
  | Throws jsval
  | Fulfils jsval
  | Rejects jsval
  | Awaits nat
  | Unsettled

text \<open>
  What the program takes from outside.  \<open>fun_body env f args\<close> is the run of function
  \<open>f\<close> on \<open>args\<close>: the function values it calls on its way, with their arguments, and
  how it ends.  \<open>Date_now env i\<close> and \<open>random_digits env i\<close> are \<^verbatim>\<open>Date.now()\<close> and
  \<^verbatim>\<open>Math.random().toString(36).slice(2)\<close> at the \<open>i\<close>-th call of \<^verbatim>\<open>generateToken\<close>.
  \<open>ToString env\<close> is the conversion of the runtime that turns a value other than a
  string into a property name.
\<close>

record env =
  fun_body :: "nat \<Rightarrow> jsval list \<Rightarrow> (jsval \<times> jsval list) list \<times> outcome"
  Date_now :: "nat \<Rightarrow> nat"
  random_digits :: "nat \<Rightarrow> string"
  ToString :: "jsval \<Rightarrow> string"

datatype future = Pending | Resolved jsval | Rejected jsval

text \<open>
  An instance of \<^verbatim>\<open>WebMessageRPC\<close> with its adapter.  \<open>callMap\<close> and \<open>promiseMap\<close>
  are the two \<^verbatim>\<open>Map\<close>s of the class; \<open>promiseMap\<close> holds, for a token, the number of
  the future whose \<^verbatim>\<open>resolve\<close> and \<^verbatim>\<open>reject\<close> it stores.  \<open>adapter_defined\<close> and
  \<open>callProxy_defined\<close> say that the field has not been set to \<^verbatim>\<open>undefined\<close>.  The
  adapter is the pair of \<open>listening\<close> (the instance's handler is subscribed) and
  \<open>sent\<close> (the payloads given to \<^verbatim>\<open>postMessage\<close>, oldest first).  \<open>futures\<close> are the
  promises returned to callers, \<open>draws\<close> counts the calls of \<^verbatim>\<open>generateToken\<close>,
  \<open>awaiting\<close> holds the dispatches suspended at their \<^verbatim>\<open>await\<close>, each as what the
  registry entry returned and the token to echo, and \<open>invoked\<close> is the history of the
  registry entries called, each with its arguments.
\<close>

record rpc =
  callMap :: "string \<rightharpoonup> jsval"
  promiseMap :: "string \<rightharpoonup> nat"
  adapter_defined :: bool
  callProxy_defined :: bool
  listening :: bool
  sent :: "jsval list"
  futures :: "future list"
  draws :: nat
  awaiting :: "(outcome \<times> jsval) list"
  invoked :: "(jsval \<times> jsval list) list"

definition TypeError :: "string \<Rightarrow> jsval" where
  "TypeError message = JError ''TypeError'' message"

text \<open>\<^verbatim>\<open>Map.prototype.get\<close> and \<^verbatim>\<open>has\<close>: the keys of both maps are strings, so a
  key of another type is never found.\<close>

definition map_get :: "(string \<rightharpoonup> 'a) \<Rightarrow> jsval \<Rightarrow> 'a option" where
  "map_get m k = (case k of JStr s \<Rightarrow> m s | _ \<Rightarrow> None)"

definition map_has :: "(string \<rightharpoonup> 'a) \<Rightarrow> jsval \<Rightarrow> bool" where
  "map_has m k = (map_get m k \<noteq> None)"

section \<open>utils: generateToken and formatError\<close>

text \<open>The value of the \<open>i\<close>-th call of \<^verbatim>\<open>generateToken\<close>:
  \<^verbatim>\<open>Date.now().toString(36) + Math.random().toString(36).slice(2)\<close>.\<close>

definition token_at :: "env \<Rightarrow> nat \<Rightarrow> string" where
  "token_at env i = to_radix 36 (Date_now env i) @ random_digits env i"

definition generateToken :: "env \<Rightarrow> rpc \<Rightarrow> string \<times> rpc" where
  "generateToken env st = (token_at env (draws st), st\<lparr>draws := Suc (draws st)\<rparr>)"

fun formatError :: "jsval \<Rightarrow> jsval" where
  "formatError (JError name message) =
     JObj [(''message'', JStr message), (''name'', JStr name)]"
| "formatError error = error"

section \<open>The call proxy\<close>

text \<open>
  \<^verbatim>\<open>this.adapter?.postMessage(payload)\<close>.  Modelled from the spec: of the Channel
  Adapter the sources hold the interface only; its \<^verbatim>\<open>postMessage\<close> takes every payload
  and does not throw.
\<close>

definition postMessage :: "rpc \<Rightarrow> jsval \<Rightarrow> rpc" where
  "postMessage st payload =
     (if adapter_defined st then st\<lparr>sent := sent st @ [payload]\<rparr> else st)"

definition callback_reference :: "string \<Rightarrow> jsval" where
  "callback_reference callbackMethodName =
     JObj [(''__rpc_callback__'', JBool True),
           (''callbackMethodName'', JStr callbackMethodName)]"

text \<open>The \<^verbatim>\<open>args.map\<close> of the call proxy, left to right.\<close>

fun marshal_args :: "env \<Rightarrow> rpc \<Rightarrow> jsval list \<Rightarrow> jsval list \<times> rpc" where
  "marshal_args env st [] = ([], st)"
| "marshal_args env st (arg # args) =
     (if typeof arg = TFunction then
        (case generateToken env st of (tok, st1) \<Rightarrow>
           let callbackMethodName = ''callback-'' @ tok;
               st2 = st1\<lparr>callMap := (callMap st1)(callbackMethodName \<mapsto> arg)\<rparr>
           in (case marshal_args env st2 args of (rest, st3) \<Rightarrow>
                 (callback_reference callbackMethodName # rest, st3)))
      else (case marshal_args env st args of (rest, st1) \<Rightarrow> (arg # rest, st1)))"

definition call_payload :: "string \<Rightarrow> jsval list \<Rightarrow> string \<Rightarrow> jsval" where
  "call_payload methodName args token =
     JObj [(''type'', JStr ''call''), (''method'', JStr methodName),
           (''args'', JArr args), (''token'', JStr token)]"

text \<open>
  Modelled from the spec: the class \<^verbatim>\<open>LazyPromise\<close> of the package
  \<^verbatim>\<open>@ai-zen/lazy-promise\<close> is not among the sources.  The spec creates the entry of the
  Pending-Call Table at call time, so \<open>new_promise\<close> runs the executor
  \<^verbatim>\<open>this.promiseMap.set(token, { resolve, reject })\<close> when the promise is built, as the
  standard \<^verbatim>\<open>Promise\<close> of the other copy of the class does.  The new future is the
  next number and is pending.
\<close>

definition new_promise :: "rpc \<Rightarrow> string \<Rightarrow> nat \<times> rpc" where
  "new_promise st token =
     (length (futures st),
      st\<lparr>futures := futures st @ [Pending],
         promiseMap := (promiseMap st)(token \<mapsto> length (futures st))\<rparr>)"

text \<open>The function that the \<^verbatim>\<open>get\<close> trap of \<^verbatim>\<open>callProxy\<close> returns for \<open>methodName\<close>,
  called on \<open>args\<close>: the number of the returned future and the instance afterwards.\<close>

definition callProxy :: "env \<Rightarrow> rpc \<Rightarrow> string \<Rightarrow> jsval list \<Rightarrow> nat \<times> rpc" where
  "callProxy env st methodName args =
     (case marshal_args env st args of (args', st1) \<Rightarrow>
        (case generateToken env st1 of (token, st2) \<Rightarrow>
           new_promise (postMessage st2 (call_payload methodName args' token)) token))"

section \<open>The dispatcher\<close>

text \<open>
  \<^verbatim>\<open>this.callProxy[key](...args)\<close>.  Reading a property of \<^verbatim>\<open>this.callProxy\<close> throws
  once \<^verbatim>\<open>destroy\<close> has set it to \<^verbatim>\<open>undefined\<close>.
\<close>

definition this_callProxy :: "env \<Rightarrow> rpc \<Rightarrow> string \<Rightarrow> jsval list \<Rightarrow> jsval + nat \<times> rpc" where
  "this_callProxy env st key args =
     (if callProxy_defined st then Inr (callProxy env st key args)
      else Inl (TypeError ''Cannot read properties of undefined''))"

text \<open>
  The arrow function put in place of a callback reference, called on \<open>callbackArgs\<close>:
  \<^verbatim>\<open>this.callProxy[arg.callbackMethodName](...callbackArgs)\<close>.
\<close>

definition property_key :: "env \<Rightarrow> jsval \<Rightarrow> string" where
  "property_key env v = (case v of JStr s \<Rightarrow> s | _ \<Rightarrow> ToString env v)"

definition forwarder :: "env \<Rightarrow> rpc \<Rightarrow> jsval \<Rightarrow> jsval list \<Rightarrow> jsval + nat \<times> rpc" where
  "forwarder env st arg callbackArgs =
     this_callProxy env st (property_key env (get_field arg ''callbackMethodName''))
       callbackArgs"

text \<open>
  A call that a running method makes on a function value.  Only a forwarder reaches
  the instance; a failed forwarder throws into the method and leaves the instance as
  it is.
\<close>

definition invoke_callback :: "env \<Rightarrow> jsval \<times> jsval list \<Rightarrow> rpc \<Rightarrow> rpc" where
  "invoke_callback env c st =
     (case fst c of
        JForwarder arg \<Rightarrow>
          (case forwarder env st arg (snd c) of Inl error \<Rightarrow> st | Inr r \<Rightarrow> snd r)
      | _ \<Rightarrow> st)"

text \<open>
  \<^verbatim>\<open>this.callMap.get(payload.method)!(...args)\<close>: the call of a registry entry, with how
  it ends.  A function of the embedding program runs its body; a forwarder that was
  registered as a callback issues its call and returns the promise of that call; any
  other value is not callable.
\<close>

definition apply_method :: "env \<Rightarrow> rpc \<Rightarrow> jsval \<Rightarrow> jsval list \<Rightarrow> outcome \<times> rpc" where
  "apply_method env st callee args =
     (case callee of
        JFun f \<Rightarrow>
          (case fun_body env f args of (calls, out) \<Rightarrow>
             (out, fold (invoke_callback env) calls
                     (st\<lparr>invoked := invoked st @ [(callee, args)]\<rparr>)))
      | JForwarder arg \<Rightarrow>
          (case forwarder env (st\<lparr>invoked := invoked st @ [(callee, args)]\<rparr>) arg args of
             Inl error \<Rightarrow> (Throws error, st\<lparr>invoked := invoked st @ [(callee, args)]\<rparr>)
           | Inr r \<Rightarrow> (Awaits (fst r), snd r))
      | _ \<Rightarrow> (Throws (TypeError ''this.callMap.get(...) is not a function''), st))"

definition rewrite_arg :: "jsval \<Rightarrow> jsval" where
  "rewrite_arg arg = (if truthy (get_field arg ''__rpc_callback__'') then JForwarder arg else arg)"

text \<open>
  \<^verbatim>\<open>payload.args.map(f)\<close>, \<open>Inl\<close> what it throws.  Only an array has \<^verbatim>\<open>map\<close>; an object
  that brings a callable \<^verbatim>\<open>map\<close> of its own is not covered.  The result is an array, so
  the \<^verbatim>\<open>|| []\<close> of the following call never takes its right side.
\<close>

fun array_map :: "(jsval \<Rightarrow> jsval) \<Rightarrow> jsval \<Rightarrow> jsval + jsval list" where
  "array_map f (JArr xs) = Inr (map f xs)"
| "array_map f JUndefined = Inl (TypeError ''Cannot read properties of undefined (reading 'map')'')"
| "array_map f JNull = Inl (TypeError ''Cannot read properties of null (reading 'map')'')"
| "array_map f v = Inl (TypeError ''payload.args.map is not a function'')"

definition success_payload :: "jsval \<Rightarrow> jsval \<Rightarrow> jsval" where
  "success_payload data token =
     JObj [(''type'', JStr ''call-result''), (''result'', JStr ''success''),
           (''data'', data), (''token'', token)]"

definition fail_payload :: "jsval \<Rightarrow> jsval \<Rightarrow> jsval" where
  "fail_payload error token =
     JObj [(''type'', JStr ''call-result''), (''result'', JStr ''fail''),
           (''error'', error), (''token'', token)]"

text \<open>
  What \<^verbatim>\<open>await\<close> finds of the value a registry entry returned: a plain value is
  there at once, a promise of the function's own is taken as settled the way the
  environment says, a promise of the proxy is in the state the futures give it.  A
  number that names no promise, like a promise that stays pending, never settles.
\<close>

definition awaited :: "rpc \<Rightarrow> outcome \<Rightarrow> future" where
  "awaited st out =
     (case out of
        Returns data \<Rightarrow> Resolved data
      | Throws error \<Rightarrow> Rejected error
      | Fulfils data \<Rightarrow> Resolved data
      | Rejects error \<Rightarrow> Rejected error
      | Awaits p \<Rightarrow> (if p < length (futures st) then futures st ! p else Pending)
      | Unsettled \<Rightarrow> Pending)"

text \<open>
  What a dispatch does after its \<^verbatim>\<open>await\<close>, given the state \<open>v\<close> of what it waited
  for: the value of a fulfilled promise goes out as a \<^verbatim>\<open>success\<close> result, the reason
  of a rejected one is thrown into the \<^verbatim>\<open>catch\<close> and goes out as a \<^verbatim>\<open>fail\<close> result.
\<close>

definition after_await :: "future \<Rightarrow> jsval \<Rightarrow> rpc \<Rightarrow> rpc" where
  "after_await v token st =
     (case v of
        Pending \<Rightarrow> st
      | Resolved data \<Rightarrow> postMessage st (success_payload data token)
      | Rejected error \<Rightarrow> postMessage st (fail_payload (formatError error) token))"

text \<open>
  The suspended dispatch at position \<open>i\<close> goes on, if what it waits for is settled:
  it leaves the list and sends its result, through the adapter the instance has by
  then.
\<close>

definition resume :: "nat \<Rightarrow> rpc \<Rightarrow> rpc" where
  "resume i st =
     (if i < length (awaiting st) then
        (case awaiting st ! i of
           (out, token) \<Rightarrow>
             (if awaited st out = Pending then st
              else after_await (awaited st out) token
                     (st\<lparr>awaiting := take i (awaiting st) @ drop (Suc i) (awaiting st)\<rparr>)))
      else st)"

text \<open>\<^verbatim>\<open>resolve\<close> and \<^verbatim>\<open>reject\<close> of a promise: they settle it once.\<close>

definition settle :: "nat \<Rightarrow> future \<Rightarrow> rpc \<Rightarrow> rpc" where
  "settle p v st =
     (if p < length (futures st) \<and> futures st ! p = Pending
      then st\<lparr>futures := (futures st)[p := v]\<rparr> else st)"

text \<open>
  The \<^verbatim>\<open>try\<close> block of \<^verbatim>\<open>messageHandler\<close> with its \<^verbatim>\<open>catch\<close>, up to the \<^verbatim>\<open>await\<close>.
  What \<^verbatim>\<open>payload.args.map\<close> or the registry entry throws is caught at once, and the
  \<^verbatim>\<open>fail\<close> result is sent before the handler returns.  Otherwise the handler stops at
  its \<^verbatim>\<open>await\<close> and returns: the dispatch joins the suspended ones, and its result is
  sent when it goes on (\<open>resume\<close>), after whatever happens to the instance in between.
\<close>

definition dispatch :: "env \<Rightarrow> rpc \<Rightarrow> jsval \<Rightarrow> rpc" where
  "dispatch env st payload =
     (case array_map rewrite_arg (get_field payload ''args'') of
        Inl error \<Rightarrow>
          postMessage st (fail_payload (formatError error) (get_field payload ''token''))
      | Inr args \<Rightarrow>
          (case apply_method env st
                  (case map_get (callMap st) (get_field payload ''method'') of
                     Some m \<Rightarrow> m | None \<Rightarrow> JUndefined) args of
             (Throws error, st1) \<Rightarrow>
               postMessage st1 (fail_payload (formatError error) (get_field payload ''token''))
           | (out, st1) \<Rightarrow>
               st1\<lparr>awaiting := awaiting st1 @ [(out, get_field payload ''token'')]\<rparr>))"

text \<open>The second \<^verbatim>\<open>if\<close> of \<^verbatim>\<open>messageHandler\<close>, for the future \<open>p\<close> found under the token.\<close>

definition handle_result :: "rpc \<Rightarrow> jsval \<Rightarrow> nat \<Rightarrow> rpc" where
  "handle_result st payload p =
     (let st1 = (if get_field payload ''result'' = JStr ''success''
                 then settle p (Resolved (get_field payload ''data'')) st else st);
          st2 = (if get_field payload ''result'' = JStr ''fail''
                 then settle p (Rejected (get_field payload ''error'')) st1 else st1)
      in (case get_field payload ''token'' of
            JStr token \<Rightarrow> st2\<lparr>promiseMap := (promiseMap st2)(token := None)\<rparr>
          | _ \<Rightarrow> st2))"

text \<open>
  \<^verbatim>\<open>messageHandler\<close>, up to its return to the adapter.  Its second \<^verbatim>\<open>if\<close> stands after
  the \<^verbatim>\<open>try\<close> statement, so that after a dispatch it is reached only when the dispatch
  has gone on; it asks for the type \<^verbatim>\<open>call-result\<close>, which the payload of a dispatch
  does not have, and does nothing then.
\<close>

definition messageHandler :: "env \<Rightarrow> rpc \<Rightarrow> jsval \<Rightarrow> rpc" where
  "messageHandler env st payload =
     (let st1 = (if get_field payload ''type'' = JStr ''call''
                    \<and> truthy (get_field payload ''method'')
                    \<and> map_has (callMap st) (get_field payload ''method'')
                 then dispatch env st payload else st)
      in if get_field payload ''type'' = JStr ''call-result''
            \<and> map_has (promiseMap st1) (get_field payload ''token'')
         then (case map_get (promiseMap st1) (get_field payload ''token'') of
                 Some p \<Rightarrow> handle_result st1 payload p | None \<Rightarrow> st1)
         else st1)"

section \<open>The registry, the namespace view and the life cycle\<close>

text \<open>\<^verbatim>\<open>namespace ? `${namespace}:${methodName}` : methodName\<close>, where \<open>namespace\<close> is a
  string or \<^verbatim>\<open>undefined\<close> (\<open>None\<close>).\<close>

definition method_key :: "string option \<Rightarrow> string \<Rightarrow> string" where
  "method_key namespace methodName =
     (case namespace of
        Some ns \<Rightarrow> if ns \<noteq> [] then ns @ '':'' @ methodName else methodName
      | None \<Rightarrow> methodName)"

text \<open>The first lines of \<^verbatim>\<open>register\<close> and \<^verbatim>\<open>deregister\<close>: the namespace and the method
  set that the two arguments give.\<close>

definition namespace_of :: "jsval \<Rightarrow> string option" where
  "namespace_of arg1 = (case arg1 of JStr s \<Rightarrow> Some s | _ \<Rightarrow> None)"

definition methods_of :: "jsval \<Rightarrow> jsval \<Rightarrow> jsval" where
  "methods_of arg1 arg2 =
     (let methods = (if typeof arg1 = TObject then arg1 else JUndefined)
      in if typeof arg2 = TObject then arg2 else methods)"

definition methods_undefined :: jsval where
  "methods_undefined = JError ''Error'' '''methods' cannot be undefined.''"

definition register :: "rpc \<Rightarrow> jsval \<Rightarrow> jsval \<Rightarrow> jsval + jsval \<times> rpc" where
  "register st arg1 arg2 =
     (let namespace = namespace_of arg1; methods = methods_of arg1 arg2
      in if \<not> truthy methods then Inl methods_undefined
         else Inr (methods,
                st\<lparr>callMap :=
                     fold (\<lambda>(methodName, v) m. m(method_key namespace methodName \<mapsto> v))
                       (object_entries methods) (callMap st)\<rparr>))"

definition deregister :: "rpc \<Rightarrow> jsval \<Rightarrow> jsval \<Rightarrow> jsval + jsval \<times> rpc" where
  "deregister st arg1 arg2 =
     (let namespace = namespace_of arg1; methods = methods_of arg1 arg2
      in if \<not> truthy methods then Inl methods_undefined
         else Inr (methods,
                st\<lparr>callMap :=
                     fold (\<lambda>(methodName, v) m. m(method_key namespace methodName := None))
                       (object_entries methods) (callMap st)\<rparr>))"

text \<open>Calling \<open>methodName\<close> on the proxy that \<^verbatim>\<open>use(namespace)\<close> returns: the \<^verbatim>\<open>get\<close> trap
  reads \<^verbatim>\<open>this.callProxy[key]\<close>, and the function it finds is called on \<open>args\<close>.\<close>

definition use :: "env \<Rightarrow> rpc \<Rightarrow> string \<Rightarrow> string \<Rightarrow> jsval list \<Rightarrow> jsval + nat \<times> rpc" where
  "use env st namespace methodName args =
     this_callProxy env st (method_key (Some namespace) methodName) args"

text \<open>\<^verbatim>\<open>new WebMessageRPC(adapter, methods)\<close> on an adapter that has sent nothing yet;
  \<^verbatim>\<open>methods ?? {}\<close> turns a missing method set into the empty object.\<close>

definition constructor :: "jsval \<Rightarrow> rpc" where
  "constructor methods =
     \<lparr>callMap = fold (\<lambda>(k, v) m. m(k \<mapsto> v))
                  (object_entries (if methods = JUndefined \<or> methods = JNull then JObj []
                                   else methods)) Map.empty,
      promiseMap = Map.empty, adapter_defined = True, callProxy_defined = True,
      listening = True, sent = [], futures = [], draws = 0, awaiting = [], invoked = []\<rparr>"

text \<open>\<^verbatim>\<open>destroy\<close>: its first statement reads \<^verbatim>\<open>this.adapter!.removeEventListener\<close>, which
  throws when the adapter is already \<^verbatim>\<open>undefined\<close>.  The bound handler
  \<^verbatim>\<open>_messageHandler\<close>, which it also clears, is only ever handed to the adapter.\<close>

definition destroy :: "rpc \<Rightarrow> jsval + rpc" where
  "destroy st =
     (if \<not> adapter_defined st then Inl (TypeError ''Cannot read properties of undefined'')
      else Inr (st\<lparr>listening := False, promiseMap := Map.empty, callProxy_defined := False,
                   callMap := Map.empty, adapter_defined := False\<rparr>))"

text \<open>
  Modelled from the spec: the Channel Adapter, of which the sources hold the interface
  only, hands an inbound payload to the handler of the instance while that handler is
  subscribed, from \<^verbatim>\<open>addEventListener\<close> in the constructor to
  \<^verbatim>\<open>removeEventListener\<close> in \<^verbatim>\<open>destroy\<close>.
\<close>

definition deliver :: "env \<Rightarrow> rpc \<Rightarrow> jsval \<Rightarrow> rpc" where
  "deliver env st payload = (if listening st then messageHandler env st payload else st)"

text \<open>
  What can happen to an instance, one event at a time: a payload arrives at the
  adapter; a suspended dispatch goes on, after its \<^verbatim>\<open>await\<close>; a function obtained from
  the call proxy is called (it can still be called after \<^verbatim>\<open>destroy\<close>); a method of a
  namespace view is called; \<^verbatim>\<open>register\<close>, \<^verbatim>\<open>deregister\<close> or \<^verbatim>\<open>destroy\<close> is called.
  An operation that throws leaves the instance as it is: each throws before its first
  write.
\<close>

datatype event =
    Deliver jsval
  | Resume nat
  | Call string "jsval list"
  | UseCall string string "jsval list"
  | Register jsval jsval
  | Deregister jsval jsval
  | Destroy

fun step :: "env \<Rightarrow> rpc \<Rightarrow> event \<Rightarrow> rpc" where
  "step env st (Deliver payload) = deliver env st payload"
| "step env st (Resume i) = resume i st"
| "step env st (Call methodName args) = snd (callProxy env st methodName args)"
| "step env st (UseCall namespace methodName args) =
     (case use env st namespace methodName args of Inl error \<Rightarrow> st | Inr r \<Rightarrow> snd r)"
| "step env st (Register arg1 arg2) =
     (case register st arg1 arg2 of Inl error \<Rightarrow> st | Inr r \<Rightarrow> snd r)"
| "step env st (Deregister arg1 arg2) =
     (case deregister st arg1 arg2 of Inl error \<Rightarrow> st | Inr r \<Rightarrow> snd r)"
| "step env st Destroy = (case destroy st of Inl error \<Rightarrow> st | Inr st' \<Rightarrow> st')"

definition run :: "env \<Rightarrow> rpc \<Rightarrow> event list \<Rightarrow> rpc" where
  "run env st events = foldl (step env) st events"

section \<open>Well-formed tables, abandoned futures, wire shapes\<close>

text \<open>
  Every entry of \<open>promiseMap\<close> holds the \<^verbatim>\<open>resolve\<close> and \<^verbatim>\<open>reject\<close> of a promise that
  exists and is still pending, and no two entries hold those of the same promise.  The
  constructor establishes this and every event keeps it.
\<close>

definition table_ok :: "rpc \<Rightarrow> bool" where
  "table_ok st \<longleftrightarrow>
     (\<forall>token p. promiseMap st token = Some p \<longrightarrow>
        p < length (futures st) \<and> futures st ! p = Pending)
     \<and> (\<forall>t1 t2 p. promiseMap st t1 = Some p \<and> promiseMap st t2 = Some p \<longrightarrow> t1 = t2)"

text \<open>A future that is pending while no entry of the table can settle it.\<close>

definition abandoned :: "nat \<Rightarrow> rpc \<Rightarrow> bool" where
  "abandoned p st \<longleftrightarrow>
     p < length (futures st) \<and> futures st ! p = Pending
     \<and> (\<forall>token. promiseMap st token \<noteq> Some p)"

section \<open>The wire schema and the marshalling, in the words of the specification\<close>

text \<open>
  The Call Payload and the Result Payload of the wire schema:
  \<^verbatim>\<open>{ type: "call", method: string, args: any[], token: string }\<close> and
  \<^verbatim>\<open>{ type: "call-result", result: "success"|"fail", data?, error?, token: string }\<close>.
\<close>

definition well_formed_call :: "jsval \<Rightarrow> bool" where
  "well_formed_call payload \<longleftrightarrow>
     get_field payload ''type'' = JStr ''call''
     \<and> typeof (get_field payload ''method'') = TString
     \<and> (case get_field payload ''args'' of JArr xs \<Rightarrow> True | _ \<Rightarrow> False)
     \<and> typeof (get_field payload ''token'') = TString"

definition well_formed_result :: "jsval \<Rightarrow> bool" where
  "well_formed_result payload \<longleftrightarrow>
     get_field payload ''type'' = JStr ''call-result''
     \<and> (get_field payload ''result'' = JStr ''success''
          \<or> get_field payload ''result'' = JStr ''fail'')
     \<and> typeof (get_field payload ''token'') = TString"

text \<open>
  What a call of the proxy draws from \<^verbatim>\<open>generateToken\<close> when \<open>n\<close> tokens were drawn
  before: the function argument at position \<open>i\<close> takes the next token after those of
  the function arguments before it, the call itself the token after all of them.
  \<open>callback_registrations\<close> lists, in the order of the arguments, each function
  argument with the key \<^verbatim>\<open>callback-<token>\<close> it is registered under.
\<close>

definition callback_token :: "env \<Rightarrow> nat \<Rightarrow> jsval list \<Rightarrow> nat \<Rightarrow> string" where
  "callback_token env n args i =
     token_at env (n + length (filter (\<lambda>a. typeof a = TFunction) (take i args)))"

definition callback_registrations :: "env \<Rightarrow> nat \<Rightarrow> jsval list \<Rightarrow> (string \<times> jsval) list" where
  "callback_registrations env n args =
     map (\<lambda>i. (''callback-'' @ callback_token env n args i, args ! i))
       (filter (\<lambda>i. typeof (args ! i) = TFunction) [0 ..< length args])"

definition call_token :: "env \<Rightarrow> nat \<Rightarrow> jsval list \<Rightarrow> string" where
  "call_token env n args = token_at env (n + length (filter (\<lambda>a. typeof a = TFunction) args))"

section \<open>An example instance\<close>

text \<open>
  An environment with four functions: \<open>0\<close> returns 3, \<open>1\<close> throws a \<^verbatim>\<open>RangeError\<close>,
  \<open>2\<close> calls its first argument on 7 and returns a promise rejected with a string,
  \<open>3\<close> calls its first argument on 7 and returns the promise of that call (the first
  future of an instance that has made no call yet); any other returns a promise that
  stays pending.  The instance registers them as \<^verbatim>\<open>add\<close>, \<^verbatim>\<open>boom\<close>, \<^verbatim>\<open>notify\<close> and
  \<^verbatim>\<open>relay\<close>; \<open>example_pending\<close> is the instance after \<^verbatim>\<open>callProxy.add(1, 2)\<close>, whose
  token is \<^verbatim>\<open>rsx\<close>.
\<close>

definition example_env :: env where
  "example_env =
     \<lparr>fun_body = (\<lambda>f args.
         if f = 0 then ([], Returns (JNum 3))
         else if f = 1 then ([], Throws (JError ''RangeError'' ''bad''))
         else if f = 2 then
           (case args of [] \<Rightarrow> [] | a # _ \<Rightarrow> [(a, [JNum 7])], Rejects (JStr ''no''))
         else if f = 3 then
           (case args of [] \<Rightarrow> [] | a # _ \<Rightarrow> [(a, [JNum 7])], Awaits 0)
         else ([], Unsettled)),
      Date_now = (\<lambda>i. 1000 + i), random_digits = (\<lambda>i. ''x''),
      ToString = (\<lambda>v. ''undefined'')\<rparr>"

definition example_rpc :: rpc where
  "example_rpc =
     constructor (JObj [(''add'', JFun 0), (''boom'', JFun 1), (''notify'', JFun 2),
                        (''relay'', JFun 3)])"

definition example_pending :: rpc where
  "example_pending = snd (callProxy example_env example_rpc ''add'' [JNum 1, JNum 2])"

definition example_destroyed :: rpc where
  "example_destroyed =
     example_pending\<lparr>listening := False, promiseMap := Map.empty, callProxy_defined := False,
       callMap := Map.empty, adapter_defined := False\<rparr>"

section \<open>What each operation leaves alone\<close>

lemma generateToken_frame [simp]:
  "callMap (snd (generateToken env st)) = callMap st"
  "promiseMap (snd (generateToken env st)) = promiseMap st"
  "adapter_defined (snd (generateToken env st)) = adapter_defined st"
  "callProxy_defined (snd (generateToken env st)) = callProxy_defined st"
  "listening (snd (generateToken env st)) = listening st"
  "sent (snd (generateToken env st)) = sent st"
  "futures (snd (generateToken env st)) = futures st"
  "invoked (snd (generateToken env st)) = invoked st"
  "awaiting (snd (generateToken env st)) = awaiting st"
  "draws (snd (generateToken env st)) = Suc (draws st)"
  by (simp_all add: generateToken_def)

lemma marshal_args_frame:
  "promiseMap (snd (marshal_args env st args)) = promiseMap st
   \<and> adapter_defined (snd (marshal_args env st args)) = adapter_defined st
   \<and> callProxy_defined (snd (marshal_args env st args)) = callProxy_defined st
   \<and> listening (snd (marshal_args env st args)) = listening st
   \<and> sent (snd (marshal_args env st args)) = sent st
   \<and> futures (snd (marshal_args env st args)) = futures st
   \<and> invoked (snd (marshal_args env st args)) = invoked st"
proof (induction args arbitrary: st)
  case Nil
  then show ?case by simp
next
  case (Cons arg args)
  show ?case
  proof (cases "typeof arg = TFunction")
    case True
    obtain tok st1 where g: "generateToken env st = (tok, st1)" by (cases "generateToken env st")
    have s1: "st1 = snd (generateToken env st)" using g by simp
    let ?st2 = "st1\<lparr>callMap := (callMap st1)((''callback-'' @ tok) \<mapsto> arg)\<rparr>"
    have "snd (marshal_args env st (arg # args)) = snd (marshal_args env ?st2 args)"
      using True g by (simp add: Let_def split: prod.splits)
    then show ?thesis using Cons.IH [of ?st2] by (simp add: s1)
  next
    case False
    then have "snd (marshal_args env st (arg # args)) = snd (marshal_args env st args)"
      by (simp split: prod.splits)
    then show ?thesis using Cons.IH [of st] by simp
  qed
qed

lemma callProxy_frame:
  assumes "callProxy env st methodName args = (p, st')"
  shows "p = length (futures st)"
    and "futures st' = futures st @ [Pending]"
    and "\<exists>token. promiseMap st' = (promiseMap st)(token \<mapsto> length (futures st))"
    and "invoked st' = invoked st"
    and "listening st' = listening st"
    and "adapter_defined st' = adapter_defined st"
    and "callProxy_defined st' = callProxy_defined st"
proof -
  obtain args' st1 where m: "marshal_args env st args = (args', st1)"
    by (cases "marshal_args env st args")
  obtain token st2 where g: "generateToken env st1 = (token, st2)"
    by (cases "generateToken env st1")
  have s1: "st1 = snd (marshal_args env st args)" using m by simp
  have s2: "st2 = snd (generateToken env st1)" using g by simp
  have r: "(p, st') = new_promise (postMessage st2 (call_payload methodName args' token)) token"
    using assms m g by (simp add: callProxy_def)
  note f = marshal_args_frame [of env st args]
  show "p = length (futures st)"
    using r f by (simp add: new_promise_def postMessage_def s1 s2)
  show "futures st' = futures st @ [Pending]"
    using r f by (simp add: new_promise_def postMessage_def s1 s2)
  have "promiseMap st' = (promiseMap st)(token \<mapsto> length (futures st))"
    using r f by (simp add: new_promise_def postMessage_def s1 s2)
  then show "\<exists>token. promiseMap st' = (promiseMap st)(token \<mapsto> length (futures st))" ..
  show "invoked st' = invoked st"
    using r f by (simp add: new_promise_def postMessage_def s1 s2)
  show "listening st' = listening st"
    using r f by (simp add: new_promise_def postMessage_def s1 s2)
  show "adapter_defined st' = adapter_defined st"
    using r f by (simp add: new_promise_def postMessage_def s1 s2)
  show "callProxy_defined st' = callProxy_defined st"
    using r f by (simp add: new_promise_def postMessage_def s1 s2)
qed

lemma postMessage_frame [simp]:
  "callMap (postMessage st x) = callMap st"
  "promiseMap (postMessage st x) = promiseMap st"
  "adapter_defined (postMessage st x) = adapter_defined st"
  "callProxy_defined (postMessage st x) = callProxy_defined st"
  "listening (postMessage st x) = listening st"
  "futures (postMessage st x) = futures st"
  "invoked (postMessage st x) = invoked st"
  "awaiting (postMessage st x) = awaiting st"
  "draws (postMessage st x) = draws st"
  by (simp_all add: postMessage_def)

lemma invoke_callback_preserves:
  assumes call: "\<And>s m a. P s \<Longrightarrow> P (snd (callProxy env s m a))"
    and "P st"
  shows "P (invoke_callback env c st)"
  using assms(2) call
  by (auto simp: invoke_callback_def forwarder_def this_callProxy_def
      split: jsval.splits sum.splits if_splits)

lemma fold_invoke_callback_preserves:
  assumes call: "\<And>s m a. P s \<Longrightarrow> P (snd (callProxy env s m a))"
  shows "P st \<Longrightarrow> P (fold (invoke_callback env) calls st)"
proof (induction calls arbitrary: st)
  case Nil
  then show ?case by simp
next
  case (Cons c calls)
  have "P (invoke_callback env c st)"
    using call Cons.prems by (rule invoke_callback_preserves)
  then show ?case using Cons.IH by simp
qed

lemma apply_method_preserves:
  assumes call: "\<And>s m a. P s \<Longrightarrow> P (snd (callProxy env s m a))"
    and frame: "\<And>s h. P s \<Longrightarrow> P (s\<lparr>invoked := h\<rparr>)"
    and "P st"
  shows "P (snd (apply_method env st callee args))"
proof (cases callee)
  case (JFun f)
  obtain calls out where b: "fun_body env f args = (calls, out)"
    by (cases "fun_body env f args")
  have "P (st\<lparr>invoked := invoked st @ [(callee, args)]\<rparr>)"
    using assms(3) by (rule frame)
  then have "P (fold (invoke_callback env) calls (st\<lparr>invoked := invoked st @ [(callee, args)]\<rparr>))"
    using call by (rule fold_invoke_callback_preserves [rotated])
  then show ?thesis using JFun b by (simp add: apply_method_def)
next
  case (JForwarder arg)
  have i: "P (st\<lparr>invoked := invoked st @ [(callee, args)]\<rparr>)"
    using assms(3) by (rule frame)
  show ?thesis
  proof (cases "callProxy_defined st")
    case True
    then show ?thesis using JForwarder call [OF i]
      by (simp add: apply_method_def forwarder_def this_callProxy_def)
  next
    case False
    then show ?thesis using JForwarder i
      by (simp add: apply_method_def forwarder_def this_callProxy_def)
  qed
qed (use assms(3) in \<open>simp_all add: apply_method_def\<close>)

lemma after_await_preserves:
  assumes post: "\<And>s x. P s \<Longrightarrow> P (postMessage s x)"
    and "P st"
  shows "P (after_await v token st)"
  using assms(2) post by (cases v) (simp_all add: after_await_def)

lemma resume_preserves:
  assumes wait: "\<And>s w. P s \<Longrightarrow> P (s\<lparr>awaiting := w\<rparr>)"
    and post: "\<And>s x. P s \<Longrightarrow> P (postMessage s x)"
    and "P st"
  shows "P (resume i st)"
proof (cases "i < length (awaiting st)")
  case True
  obtain out token where w: "awaiting st ! i = (out, token)" by (cases "awaiting st ! i")
  have "P (after_await (awaited st out) token
             (st\<lparr>awaiting := take i (awaiting st) @ drop (Suc i) (awaiting st)\<rparr>))"
    using post wait [OF assms(3)] by (rule after_await_preserves)
  then show ?thesis using True w assms(3) by (simp add: resume_def)
next
  case False
  then show ?thesis using assms(3) by (simp add: resume_def)
qed

lemma dispatch_cases:
  assumes "array_map rewrite_arg (get_field payload ''args'') = Inr args"
    and "apply_method env st
           (case map_get (callMap st) (get_field payload ''method'') of
              Some m \<Rightarrow> m | None \<Rightarrow> JUndefined) args = (out, st1)"
  shows "dispatch env st payload =
     (case out of
        Throws error \<Rightarrow>
          postMessage st1 (fail_payload (formatError error) (get_field payload ''token''))
      | _ \<Rightarrow> st1\<lparr>awaiting := awaiting st1 @ [(out, get_field payload ''token'')]\<rparr>)"
  using assms by (cases out) (simp_all add: dispatch_def)

lemma dispatch_preserves:
  assumes call: "\<And>s m a. P s \<Longrightarrow> P (snd (callProxy env s m a))"
    and frame: "\<And>s h. P s \<Longrightarrow> P (s\<lparr>invoked := h\<rparr>)"
    and wait: "\<And>s w. P s \<Longrightarrow> P (s\<lparr>awaiting := w\<rparr>)"
    and post: "\<And>s x. P s \<Longrightarrow> P (postMessage s x)"
    and "P st"
  shows "P (dispatch env st payload)"
proof (cases "array_map rewrite_arg (get_field payload ''args'')")
  case (Inl error)
  then show ?thesis using post [OF assms(5)] by (simp add: dispatch_def)
next
  case (Inr args)
  let ?callee = "case map_get (callMap st) (get_field payload ''method'') of
                   Some m \<Rightarrow> m | None \<Rightarrow> JUndefined"
  obtain out st1 where a: "apply_method env st ?callee args = (out, st1)"
    by (cases "apply_method env st ?callee args")
  have "P (snd (apply_method env st ?callee args))"
    using call frame assms(5) by (rule apply_method_preserves)
  then have p1: "P st1" using a by simp
  show ?thesis
    unfolding dispatch_cases [OF Inr a]
    using post [OF p1] wait [OF p1] by (cases out) simp_all
qed

section \<open>Invariants of the Pending-Call Table\<close>

lemma table_ok_callProxy:
  assumes "table_ok st"
  shows "table_ok (snd (callProxy env st methodName args))"
proof -
  obtain p st' where c: "callProxy env st methodName args = (p, st')"
    by (cases "callProxy env st methodName args")
  obtain token where pm: "promiseMap st' = (promiseMap st)(token \<mapsto> length (futures st))"
    using callProxy_frame(3) [OF c] by blast
  have fs: "futures st' = futures st @ [Pending]" by (rule callProxy_frame(2) [OF c])
  have old: "\<And>t q. promiseMap st t = Some q \<Longrightarrow> q < length (futures st) \<and> futures st ! q = Pending"
    using assms by (simp add: table_ok_def)
  have inj: "\<And>t1 t2 q. promiseMap st t1 = Some q \<Longrightarrow> promiseMap st t2 = Some q \<Longrightarrow> t1 = t2"
    using assms unfolding table_ok_def by blast
  have "table_ok st'"
    unfolding table_ok_def
  proof (intro conjI allI impI)
    fix t q assume "promiseMap st' t = Some q"
    then show "q < length (futures st')"
      using old [of t q] by (auto simp: pm fs split: if_splits)
  next
    fix t q assume "promiseMap st' t = Some q"
    then show "futures st' ! q = Pending"
      using old [of t q] by (auto simp: pm fs nth_append split: if_splits)
  next
    fix t1 t2 q assume "promiseMap st' t1 = Some q \<and> promiseMap st' t2 = Some q"
    then show "t1 = t2"
      using old [of t1 q] old [of t2 q] inj [of t1 q t2]
      by (auto simp: pm split: if_splits)
  qed
  then show ?thesis using c by simp
qed

lemma abandoned_callProxy:
  assumes "abandoned p st"
  shows "abandoned p (snd (callProxy env st methodName args))"
proof -
  obtain q st' where c: "callProxy env st methodName args = (q, st')"
    by (cases "callProxy env st methodName args")
  obtain token where pm: "promiseMap st' = (promiseMap st)(token \<mapsto> length (futures st))"
    using callProxy_frame(3) [OF c] by blast
  have fs: "futures st' = futures st @ [Pending]" by (rule callProxy_frame(2) [OF c])
  have "abandoned p st'"
    using assms by (auto simp: abandoned_def pm fs nth_append)
  then show ?thesis using c by simp
qed

lemma after_await_frame [simp]:
  "callMap (after_await v token st) = callMap st"
  "promiseMap (after_await v token st) = promiseMap st"
  "adapter_defined (after_await v token st) = adapter_defined st"
  "callProxy_defined (after_await v token st) = callProxy_defined st"
  "listening (after_await v token st) = listening st"
  "futures (after_await v token st) = futures st"
  "invoked (after_await v token st) = invoked st"
  "awaiting (after_await v token st) = awaiting st"
  "draws (after_await v token st) = draws st"
  by (cases v; simp add: after_await_def)+

lemma resume_frame [simp]:
  "callMap (resume i st) = callMap st"
  "promiseMap (resume i st) = promiseMap st"
  "adapter_defined (resume i st) = adapter_defined st"
  "callProxy_defined (resume i st) = callProxy_defined st"
  "listening (resume i st) = listening st"
  "futures (resume i st) = futures st"
  "invoked (resume i st) = invoked st"
  "draws (resume i st) = draws st"
  by (simp_all add: resume_def split: prod.splits)

lemma settle_frame [simp]:
  "callMap (settle p v st) = callMap st"
  "promiseMap (settle p v st) = promiseMap st"
  "adapter_defined (settle p v st) = adapter_defined st"
  "callProxy_defined (settle p v st) = callProxy_defined st"
  "listening (settle p v st) = listening st"
  "sent (settle p v st) = sent st"
  "invoked (settle p v st) = invoked st"
  "awaiting (settle p v st) = awaiting st"
  "draws (settle p v st) = draws st"
  by (simp_all add: settle_def)

lemma settle_futures:
  "futures (settle p v st)
     = (if p < length (futures st) \<and> futures st ! p = Pending then (futures st)[p := v]
        else futures st)"
  by (simp add: settle_def)

lemma settle_length [simp]: "length (futures (settle p v st)) = length (futures st)"
  by (simp add: settle_futures)

lemma settle_other: "q \<noteq> p \<Longrightarrow> futures (settle p v st) ! q = futures st ! q"
  by (simp add: settle_futures)

lemma settle_pending:
  "p < length (futures st) \<Longrightarrow> futures st ! p = Pending \<Longrightarrow> futures (settle p v st) ! p = v"
  by (simp add: settle_futures)

lemma handle_result_frame [simp]:
  "callMap (handle_result st payload p) = callMap st"
  "adapter_defined (handle_result st payload p) = adapter_defined st"
  "callProxy_defined (handle_result st payload p) = callProxy_defined st"
  "listening (handle_result st payload p) = listening st"
  "sent (handle_result st payload p) = sent st"
  "invoked (handle_result st payload p) = invoked st"
  "awaiting (handle_result st payload p) = awaiting st"
  "draws (handle_result st payload p) = draws st"
  "length (futures (handle_result st payload p)) = length (futures st)"
  by (simp_all add: handle_result_def Let_def split: jsval.splits)

lemma handle_result_promiseMap:
  "get_field payload ''token'' = JStr token \<Longrightarrow>
   promiseMap (handle_result st payload p) = (promiseMap st)(token := None)"
  by (simp add: handle_result_def Let_def)

lemma handle_result_other:
  "q \<noteq> p \<Longrightarrow> futures (handle_result st payload p) ! q = futures st ! q"
  by (simp add: handle_result_def Let_def settle_other split: jsval.splits)

lemma table_ok_handle_result:
  assumes "table_ok st" and "get_field payload ''token'' = JStr token"
    and "promiseMap st token = Some p"
  shows "table_ok (handle_result st payload p)"
proof -
  have old: "\<And>t q. promiseMap st t = Some q \<Longrightarrow> q < length (futures st) \<and> futures st ! q = Pending"
    using assms(1) by (simp add: table_ok_def)
  have inj: "\<And>t1 t2 q. promiseMap st t1 = Some q \<Longrightarrow> promiseMap st t2 = Some q \<Longrightarrow> t1 = t2"
    using assms(1) unfolding table_ok_def by blast
  note pm = handle_result_promiseMap [OF assms(2), of st p]
  show ?thesis
    unfolding table_ok_def
  proof (intro conjI allI impI)
    fix t q assume "promiseMap (handle_result st payload p) t = Some q"
    then show "q < length (futures (handle_result st payload p))"
      using old [of t q] by (auto simp: pm split: if_splits)
  next
    fix t q assume a: "promiseMap (handle_result st payload p) t = Some q"
    then have t: "t \<noteq> token" and q: "promiseMap st t = Some q"
      by (auto simp: pm split: if_splits)
    have "q \<noteq> p" using inj [of t q token] q assms(3) t by blast
    then show "futures (handle_result st payload p) ! q = Pending"
      using old [OF q] by (simp add: handle_result_other)
  next
    fix t1 t2 q
    assume "promiseMap (handle_result st payload p) t1 = Some q
            \<and> promiseMap (handle_result st payload p) t2 = Some q"
    then show "t1 = t2"
      using inj [of t1 q t2] by (auto simp: pm split: if_splits)
  qed
qed

lemma abandoned_handle_result:
  assumes "abandoned q st" and "get_field payload ''token'' = JStr token"
    and "promiseMap st token = Some p"
  shows "abandoned q (handle_result st payload p)"
proof -
  have "q \<noteq> p" using assms(1,3) by (auto simp: abandoned_def)
  then show ?thesis
    using assms(1)
    by (auto simp: abandoned_def handle_result_other handle_result_promiseMap [OF assms(2)])
qed

lemma table_ok_frame:
  "promiseMap st' = promiseMap st \<Longrightarrow> futures st' = futures st \<Longrightarrow> table_ok st \<Longrightarrow> table_ok st'"
  by (simp add: table_ok_def)

lemma abandoned_frame:
  "promiseMap st' = promiseMap st \<Longrightarrow> futures st' = futures st \<Longrightarrow> abandoned p st \<Longrightarrow> abandoned p st'"
  by (simp add: abandoned_def)

lemma handle_result_settles:
  assumes "p < length (futures st)" and "futures st ! p = Pending"
  shows "get_field payload ''result'' = JStr ''success'' \<Longrightarrow>
           futures (handle_result st payload p) ! p = Resolved (get_field payload ''data'')"
    and "get_field payload ''result'' = JStr ''fail'' \<Longrightarrow>
           futures (handle_result st payload p) ! p = Rejected (get_field payload ''error'')"
  using assms by (simp_all add: handle_result_def Let_def settle_pending split: jsval.splits)

lemma table_ok_dispatch: "table_ok st \<Longrightarrow> table_ok (dispatch env st payload)"
  by (rule dispatch_preserves [where P = table_ok])
     (auto intro: table_ok_callProxy elim: table_ok_frame [rotated 2])

lemma abandoned_dispatch: "abandoned p st \<Longrightarrow> abandoned p (dispatch env st payload)"
  by (rule dispatch_preserves [where P = "abandoned p"])
     (auto intro: abandoned_callProxy elim: abandoned_frame [rotated 2])

lemma map_has_get:
  "map_has m k \<Longrightarrow> \<exists>s v. k = JStr s \<and> m s = Some v \<and> map_get m k = Some v"
  by (auto simp: map_has_def map_get_def split: jsval.splits)

lemma table_ok_messageHandler:
  assumes "table_ok st"
  shows "table_ok (messageHandler env st payload)"
proof (cases "get_field payload ''type'' = JStr ''call-result''")
  case True
  show ?thesis
  proof (cases "map_has (promiseMap st) (get_field payload ''token'')")
    case h: True
    then obtain token p where "get_field payload ''token'' = JStr token"
      "promiseMap st token = Some p" "map_get (promiseMap st) (get_field payload ''token'') = Some p"
      using map_has_get by blast
    then show ?thesis
      using True h table_ok_handle_result [OF assms] by (simp add: messageHandler_def)
  next
    case False
    then show ?thesis using True assms by (simp add: messageHandler_def)
  qed
next
  case False
  then show ?thesis
    using assms table_ok_dispatch [OF assms] by (simp add: messageHandler_def)
qed

lemma abandoned_messageHandler:
  assumes "abandoned q st"
  shows "abandoned q (messageHandler env st payload)"
proof (cases "get_field payload ''type'' = JStr ''call-result''")
  case True
  show ?thesis
  proof (cases "map_has (promiseMap st) (get_field payload ''token'')")
    case h: True
    then obtain token p where "get_field payload ''token'' = JStr token"
      "promiseMap st token = Some p" "map_get (promiseMap st) (get_field payload ''token'') = Some p"
      using map_has_get by blast
    then show ?thesis
      using True h abandoned_handle_result [OF assms] by (simp add: messageHandler_def)
  next
    case False
    then show ?thesis using True assms by (simp add: messageHandler_def)
  qed
next
  case False
  then show ?thesis
    using assms abandoned_dispatch [OF assms] by (simp add: messageHandler_def)
qed

lemma register_frame:
  "register st arg1 arg2 = Inr (m, st') \<Longrightarrow>
   promiseMap st' = promiseMap st \<and> futures st' = futures st \<and> invoked st' = invoked st
   \<and> listening st' = listening st \<and> sent st' = sent st"
  by (auto simp: register_def Let_def split: if_splits)

lemma deregister_frame:
  "deregister st arg1 arg2 = Inr (m, st') \<Longrightarrow>
   promiseMap st' = promiseMap st \<and> futures st' = futures st \<and> invoked st' = invoked st
   \<and> listening st' = listening st \<and> sent st' = sent st"
  by (auto simp: deregister_def Let_def split: if_splits)

lemma table_ok_constructor: "table_ok (constructor methods)"
  by (simp add: table_ok_def constructor_def)

lemma table_ok_step:
  assumes "table_ok st"
  shows "table_ok (step env st event)"
proof (cases event)
  case (Deliver payload)
  then show ?thesis using assms by (simp add: deliver_def table_ok_messageHandler)
next
  case (Call methodName args)
  then show ?thesis using assms by (simp add: table_ok_callProxy)
next
  case (UseCall namespace methodName args)
  then show ?thesis using assms by (simp add: use_def this_callProxy_def table_ok_callProxy)
next
  case (Register arg1 arg2)
  then show ?thesis using assms
    by (auto split: sum.splits dest!: register_frame elim: table_ok_frame [rotated 2])
next
  case (Deregister arg1 arg2)
  then show ?thesis using assms
    by (auto split: sum.splits dest!: deregister_frame elim: table_ok_frame [rotated 2])
next
  case Destroy
  then show ?thesis using assms by (auto simp: destroy_def table_ok_def split: if_splits)
next
  case (Resume i)
  then show ?thesis using assms by (auto elim: table_ok_frame [rotated 2])
qed

lemma table_ok_run: "table_ok st \<Longrightarrow> table_ok (run env st events)"
  unfolding run_def by (induction events arbitrary: st) (simp_all add: table_ok_step)

lemma table_ok_reachable: "table_ok (run env (constructor methods) events)"
  by (rule table_ok_run) (rule table_ok_constructor)

lemma abandoned_step:
  assumes "abandoned p st"
  shows "abandoned p (step env st event)"
proof (cases event)
  case (Deliver payload)
  then show ?thesis using assms by (simp add: deliver_def abandoned_messageHandler)
next
  case (Call methodName args)
  then show ?thesis using assms by (simp add: abandoned_callProxy)
next
  case (UseCall namespace methodName args)
  then show ?thesis using assms by (simp add: use_def this_callProxy_def abandoned_callProxy)
next
  case (Register arg1 arg2)
  then show ?thesis using assms
    by (auto split: sum.splits dest!: register_frame elim: abandoned_frame [rotated 2])
next
  case (Deregister arg1 arg2)
  then show ?thesis using assms
    by (auto split: sum.splits dest!: deregister_frame elim: abandoned_frame [rotated 2])
next
  case Destroy
  then show ?thesis using assms by (auto simp: destroy_def abandoned_def split: if_splits)
next
  case (Resume i)
  then show ?thesis using assms by (auto elim: abandoned_frame [rotated 2])
qed

lemma abandoned_run: "abandoned p st \<Longrightarrow> abandoned p (run env st events)"
  unfolding run_def by (induction events arbitrary: st) (simp_all add: abandoned_step)

lemma messageHandler_result:
  assumes "get_field payload ''type'' = JStr ''call-result''"
    and "get_field payload ''token'' = JStr token"
    and "promiseMap st token = Some p"
  shows "messageHandler env st payload = handle_result st payload p"
  using assms by (simp add: messageHandler_def map_has_def map_get_def)

lemma messageHandler_no_entry:
  assumes "get_field payload ''type'' = JStr ''call-result''"
    and "\<not> map_has (promiseMap st) (get_field payload ''token'')"
  shows "messageHandler env st payload = st"
  using assms by (simp add: messageHandler_def)


lemma messageHandler_empty_tables:
  assumes "callMap st = Map.empty" and "promiseMap st = Map.empty"
  shows "messageHandler env st payload = st"
  using assms by (simp add: messageHandler_def map_has_def map_get_def split: jsval.splits)

lemma foldl_fixed: "(\<And>x. f s x = s) \<Longrightarrow> foldl f s xs = s"
  by (induction xs) simp_all

lemma quiet_step:
  assumes "\<not> listening st"
  shows "\<not> listening (step env st event) \<and> invoked (step env st event) = invoked st
     \<and> (\<exists>n. futures (step env st event) = futures st @ replicate n Pending)"
proof (cases event)
  case (Deliver payload)
  then show ?thesis using assms by (simp add: deliver_def)
next
  case (Call methodName args)
  obtain p st' where c: "callProxy env st methodName args = (p, st')"
    by (cases "callProxy env st methodName args")
  have "futures st' = futures st @ replicate 1 Pending"
    using callProxy_frame(2) [OF c] by simp
  then show ?thesis
    using Call assms c callProxy_frame(4,5) [OF c] by (auto simp del: replicate.simps)
next
  case (UseCall namespace methodName args)
  obtain p st' where c: "callProxy env st (method_key (Some namespace) methodName) args = (p, st')"
    by (cases "callProxy env st (method_key (Some namespace) methodName) args")
  have "futures st' = futures st @ replicate 1 Pending"
    using callProxy_frame(2) [OF c] by simp
  then show ?thesis
    using UseCall assms c callProxy_frame(4,5) [OF c]
    by (auto simp: use_def this_callProxy_def simp del: replicate.simps)
next
  case (Register arg1 arg2)
  then show ?thesis using assms by (auto split: sum.splits dest!: register_frame)
next
  case (Deregister arg1 arg2)
  then show ?thesis using assms by (auto split: sum.splits dest!: deregister_frame)
next
  case Destroy
  then show ?thesis using assms by (auto simp: destroy_def split: if_splits)
next
  case (Resume i)
  then show ?thesis using assms by simp
qed

lemma quiet_run:
  "\<not> listening st \<Longrightarrow>
   invoked (run env st events) = invoked st
   \<and> (\<exists>n. futures (run env st events) = futures st @ replicate n Pending)"
  unfolding run_def
proof (induction events arbitrary: st)
  case Nil
  then show ?case by simp
next
  case (Cons event events)
  note s = quiet_step [OF Cons.prems, of env event]
  then obtain n where n: "futures (step env st event) = futures st @ replicate n Pending"
    by blast
  from Cons.IH [of "step env st event"] s
  obtain m where m: "futures (foldl (step env) (step env st event) events)
      = futures (step env st event) @ replicate m Pending"
    and i: "invoked (foldl (step env) (step env st event) events) = invoked (step env st event)"
    by blast
  have "futures (foldl (step env) (step env st event) events)
      = futures st @ replicate (n + m) Pending"
    by (simp add: m n replicate_add)
  then show ?case using i s by auto
qed

lemma example_pending_table:
  "promiseMap example_pending = [''rsx'' \<mapsto> 0]" "futures example_pending = [Pending]"
  "adapter_defined example_pending"
  by (simp_all add: example_pending_def callProxy_def generateToken_def token_at_def example_env_def
      example_rpc_def constructor_def new_promise_def postMessage_def digit_char_def)

section \<open>Dispatch, registration and marshalling\<close>

lemma messageHandler_call:
  assumes "get_field payload ''type'' = JStr ''call''"
    and "truthy (get_field payload ''method'')"
    and "map_has (callMap st) (get_field payload ''method'')"
  shows "messageHandler env st payload = dispatch env st payload"
  using assms by (simp add: messageHandler_def)


lemma example_rpc_fields:
  "callMap example_rpc ''add'' = Some (JFun 0)"
  "callMap example_rpc ''boom'' = Some (JFun 1)"
  "callMap example_rpc ''notify'' = Some (JFun 2)"
  "callMap example_rpc ''relay'' = Some (JFun 3)"
  "adapter_defined example_rpc" "callProxy_defined example_rpc" "listening example_rpc"
  "sent example_rpc = []" "invoked example_rpc = []" "futures example_rpc = []"
  "awaiting example_rpc = []"
  "promiseMap example_rpc = Map.empty" "draws example_rpc = 0"
  by (simp_all add: example_rpc_def constructor_def)

lemma callProxy_sent_eq:
  assumes "adapter_defined st"
  shows "sent (snd (callProxy env st methodName args))
     = sent st @ [call_payload methodName (fst (marshal_args env st args))
                    (fst (generateToken env (snd (marshal_args env st args))))]"
proof -
  obtain args' st1 where m: "marshal_args env st args = (args', st1)"
    by (cases "marshal_args env st args")
  obtain token st2 where g: "generateToken env st1 = (token, st2)"
    by (cases "generateToken env st1")
  have s1: "st1 = snd (marshal_args env st args)" using m by simp
  have s2: "st2 = snd (generateToken env st1)" using g by simp
  note f = marshal_args_frame [of env st args]
  have r: "callProxy env st methodName args
      = new_promise (postMessage st2 (call_payload methodName args' token)) token"
    using m g by (simp add: callProxy_def)
  have a: "adapter_defined st2" and b: "sent st2 = sent st"
    using f assms by (simp_all add: s1 s2)
  have "sent (snd (callProxy env st methodName args))
      = sent st @ [call_payload methodName args' token]"
    using a b by (simp add: r new_promise_def postMessage_def)
  then show ?thesis using m g by simp
qed

lemma fold_map_upd:
  "fold (\<lambda>(k, v) m. m(f k \<mapsto> v)) kvs m = m ++ map_of (rev (map (\<lambda>(k, v). (f k, v)) kvs))"
proof (induction kvs arbitrary: m)
  case Nil
  then show ?case by simp
next
  case (Cons kv kvs)
  obtain k v where kv: "kv = (k, v)" by (cases kv)
  let ?rest = "map_of (rev (map (\<lambda>(k, v). (f k, v)) kvs))"
  have "m ++ map_of (rev (map (\<lambda>(k, v). (f k, v)) (kv # kvs))) = m ++ ([f k \<mapsto> v] ++ ?rest)"
    by (simp add: kv)
  also have "\<dots> = (m ++ [f k \<mapsto> v]) ++ ?rest"
    by (simp only: map_add_assoc)
  also have "\<dots> = m(f k \<mapsto> v) ++ ?rest"
    by simp
  finally have r: "m ++ map_of (rev (map (\<lambda>(k, v). (f k, v)) (kv # kvs))) = m(f k \<mapsto> v) ++ ?rest" .
  have "fold (\<lambda>(k, v) m. m(f k \<mapsto> v)) (kv # kvs) m
      = fold (\<lambda>(k, v) m. m(f k \<mapsto> v)) kvs (m(f k \<mapsto> v))"
    by (simp only: kv fold_simps comp_apply case_prod_conv)
  then show ?case by (simp only: r Cons.IH)
qed

lemma callback_token_0: "callback_token env n args 0 = token_at env n"
  by (simp add: callback_token_def)

lemma callback_token_Suc:
  "callback_token env n (a # args) (Suc i)
     = callback_token env (if typeof a = TFunction then Suc n else n) args i"
  by (simp add: callback_token_def)

lemma callback_registrations_Nil: "callback_registrations env n [] = []"
  by (simp add: callback_registrations_def)

lemma callback_registrations_Cons:
  "callback_registrations env n (a # args) =
     (if typeof a = TFunction
      then (''callback-'' @ token_at env n, a) # callback_registrations env (Suc n) args
      else callback_registrations env n args)"
proof -
  have u: "[0 ..< length (a # args)] = 0 # map Suc [0 ..< length args]"
    by (simp add: upt_conv_Cons map_Suc_upt del: upt_Suc)
  have f: "filter (\<lambda>i. typeof ((a # args) ! i) = TFunction) (map Suc [0 ..< length args])
      = map Suc (filter (\<lambda>i. typeof (args ! i) = TFunction) [0 ..< length args])"
    by (simp add: filter_map comp_def)
  show ?thesis
    unfolding callback_registrations_def u
    by (simp add: f comp_def callback_token_Suc callback_token_0 del: upt_Suc)
qed

lemma marshal_args_spec:
  "marshal_args env st args = (args', st') \<Longrightarrow>
     length args' = length args
   \<and> (\<forall>i<length args. args' ! i =
         (if typeof (args ! i) = TFunction
          then callback_reference (''callback-'' @ callback_token env (draws st) args i) else args ! i))
   \<and> draws st' = draws st + length (filter (\<lambda>a. typeof a = TFunction) args)
   \<and> callMap st' = fold (\<lambda>(k, f) m. m(k \<mapsto> f))
                      (callback_registrations env (draws st) args) (callMap st)"
proof (induction args arbitrary: st args' st')
  case Nil
  then show ?case by (simp add: callback_registrations_Nil)
next
  case (Cons a args)
  show ?case
  proof (cases "typeof a = TFunction")
    case True
    let ?key = "''callback-'' @ token_at env (draws st)"
    let ?st2 = "st\<lparr>draws := Suc (draws st), callMap := (callMap st)(?key \<mapsto> a)\<rparr>"
    obtain rest st3 where m: "marshal_args env ?st2 args = (rest, st3)"
      by (cases "marshal_args env ?st2 args")
    have r: "args' = callback_reference ?key # rest" "st' = st3"
      using Cons.prems True m by (simp_all add: generateToken_def Let_def)
    note ih = Cons.IH [OF m]
    have nth: "\<forall>i<length (a # args). args' ! i =
         (if typeof ((a # args) ! i) = TFunction
          then callback_reference (''callback-'' @ callback_token env (draws st) (a # args) i) else (a # args) ! i)"
    proof (intro allI impI)
      fix i assume "i < length (a # args)"
      then show "args' ! i =
         (if typeof ((a # args) ! i) = TFunction
          then callback_reference (''callback-'' @ callback_token env (draws st) (a # args) i) else (a # args) ! i)"
        using ih True by (cases i) (simp_all add: r callback_token_0 callback_token_Suc)
    qed
    have c2: "callMap ?st2 = (callMap st)(?key \<mapsto> a)" and d2: "draws ?st2 = Suc (draws st)"
      by simp_all
    have ihmap: "callMap st3 = fold (\<lambda>(k, f) m. m(k \<mapsto> f))
                      (callback_registrations env (draws ?st2) args) (callMap ?st2)"
      using ih by blast
    have regs: "callback_registrations env (draws st) (a # args)
        = (?key, a) # callback_registrations env (Suc (draws st)) args"
      using True by (simp only: callback_registrations_Cons if_True simp_thms)
    have cm: "callMap st' = fold (\<lambda>(k, f) m. m(k \<mapsto> f))
                      (callback_registrations env (draws st) (a # args)) (callMap st)"
      by (simp only: r ihmap c2 d2 regs fold_simps comp_apply case_prod_conv)
    have len: "length args' = length (a # args)" using ih by (simp add: r)
    have dr: "draws st' = draws st + length (filter (\<lambda>a. typeof a = TFunction) (a # args))"
      using ih True by (simp add: r)
    show ?thesis using len nth dr cm by blast
  next
    case False
    obtain rest st3 where m: "marshal_args env st args = (rest, st3)"
      by (cases "marshal_args env st args")
    have r: "args' = a # rest" "st' = st3"
      using Cons.prems False m by simp_all
    note ih = Cons.IH [OF m]
    have nth: "\<forall>i<length (a # args). args' ! i =
         (if typeof ((a # args) ! i) = TFunction
          then callback_reference (''callback-'' @ callback_token env (draws st) (a # args) i) else (a # args) ! i)"
    proof (intro allI impI)
      fix i assume "i < length (a # args)"
      then show "args' ! i =
         (if typeof ((a # args) ! i) = TFunction
          then callback_reference (''callback-'' @ callback_token env (draws st) (a # args) i) else (a # args) ! i)"
        using ih False by (cases i) (simp_all add: r callback_token_Suc)
    qed
    have ihmap: "callMap st3 = fold (\<lambda>(k, f) m. m(k \<mapsto> f))
                      (callback_registrations env (draws st) args) (callMap st)"
      using ih by blast
    have regs: "callback_registrations env (draws st) (a # args)
        = callback_registrations env (draws st) args"
      using False by (simp only: callback_registrations_Cons if_False simp_thms)
    have cm: "callMap st' = fold (\<lambda>(k, f) m. m(k \<mapsto> f))
                      (callback_registrations env (draws st) (a # args)) (callMap st)"
      by (simp only: r ihmap regs)
    have len: "length args' = length (a # args)" using ih by (simp add: r)
    have dr: "draws st' = draws st + length (filter (\<lambda>a. typeof a = TFunction) (a # args))"
      using ih False by (simp add: r)
    show ?thesis using len nth dr cm by blast
  qed
qed

lemma marshal_args_other:
  "marshal_args env st args = (args', st') \<Longrightarrow>
   (\<forall>j<length args. typeof (args ! j) = TFunction \<longrightarrow>
      callback_token env (draws st) args j \<noteq> t) \<Longrightarrow>
   callMap st' (''callback-'' @ t) = callMap st (''callback-'' @ t)"
proof (induction args arbitrary: st args' st')
  case Nil
  then show ?case by simp
next
  case (Cons a args)
  show ?case
  proof (cases "typeof a = TFunction")
    case True
    let ?key = "''callback-'' @ token_at env (draws st)"
    let ?st2 = "st\<lparr>draws := Suc (draws st), callMap := (callMap st)(?key \<mapsto> a)\<rparr>"
    obtain rest st3 where m: "marshal_args env ?st2 args = (rest, st3)"
      by (cases "marshal_args env ?st2 args")
    have r: "st' = st3"
      using Cons.prems(1) True m by (simp add: generateToken_def Let_def)
    have t0: "token_at env (draws st) \<noteq> t"
      using Cons.prems(2) [rule_format, of 0] True by (simp add: callback_token_0)
    have later: "\<forall>j<length args. typeof (args ! j) = TFunction \<longrightarrow>
        callback_token env (draws ?st2) args j \<noteq> t"
    proof (intro allI impI)
      fix j assume "j < length args" "typeof (args ! j) = TFunction"
      then show "callback_token env (draws ?st2) args j \<noteq> t"
        using Cons.prems(2) [rule_format, of "Suc j"] True by (simp add: callback_token_Suc)
    qed
    have "callMap st3 (''callback-'' @ t) = callMap ?st2 (''callback-'' @ t)"
      using m later by (rule Cons.IH)
    then show ?thesis using t0 by (simp add: r)
  next
    case False
    obtain rest st3 where m: "marshal_args env st args = (rest, st3)"
      by (cases "marshal_args env st args")
    have r: "st' = st3" using Cons.prems(1) False m by simp
    have later: "\<forall>j<length args. typeof (args ! j) = TFunction \<longrightarrow>
        callback_token env (draws st) args j \<noteq> t"
    proof (intro allI impI)
      fix j assume "j < length args" "typeof (args ! j) = TFunction"
      then show "callback_token env (draws st) args j \<noteq> t"
        using Cons.prems(2) [rule_format, of "Suc j"] False by (simp add: callback_token_Suc)
    qed
    show ?thesis using Cons.IH [OF m later] by (simp add: r)
  qed
qed

lemma marshal_args_registered:
  "marshal_args env st args = (args', st') \<Longrightarrow> i < length args \<Longrightarrow>
   typeof (args ! i) = TFunction \<Longrightarrow>
   (\<forall>j<length args. i < j \<and> typeof (args ! j) = TFunction \<longrightarrow>
      callback_token env (draws st) args j \<noteq> callback_token env (draws st) args i) \<Longrightarrow>
   callMap st' (''callback-'' @ callback_token env (draws st) args i) = Some (args ! i)"
proof (induction args arbitrary: st args' st' i)
  case Nil
  then show ?case by simp
next
  case (Cons a args)
  show ?case
  proof (cases i)
    case 0
    then have fa: "typeof a = TFunction" using Cons.prems(3) by simp
    let ?key = "''callback-'' @ token_at env (draws st)"
    let ?st2 = "st\<lparr>draws := Suc (draws st), callMap := (callMap st)(?key \<mapsto> a)\<rparr>"
    obtain rest st3 where m: "marshal_args env ?st2 args = (rest, st3)"
      by (cases "marshal_args env ?st2 args")
    have r: "st' = st3"
      using Cons.prems(1) fa m by (simp add: generateToken_def Let_def)
    have later: "\<forall>j<length args. typeof (args ! j) = TFunction \<longrightarrow>
        callback_token env (draws ?st2) args j \<noteq> token_at env (draws st)"
    proof (intro allI impI)
      fix j assume "j < length args" "typeof (args ! j) = TFunction"
      then show "callback_token env (draws ?st2) args j \<noteq> token_at env (draws st)"
        using Cons.prems(4) [rule_format, of "Suc j"] fa 0
        by (simp add: callback_token_Suc callback_token_0)
    qed
    have "callMap st3 ?key = callMap ?st2 ?key"
      using m later by (rule marshal_args_other)
    then show ?thesis using 0 by (simp add: r callback_token_0)
  next
    case (Suc k)
    have k: "k < length args" "typeof (args ! k) = TFunction"
      using Cons.prems(2,3) Suc by simp_all
    show ?thesis
    proof (cases "typeof a = TFunction")
      case True
      let ?st2 = "st\<lparr>draws := Suc (draws st),
                     callMap := (callMap st)((''callback-'' @ token_at env (draws st)) \<mapsto> a)\<rparr>"
      obtain rest st3 where m: "marshal_args env ?st2 args = (rest, st3)"
        by (cases "marshal_args env ?st2 args")
      have r: "st' = st3"
        using Cons.prems(1) True m by (simp add: generateToken_def Let_def)
      have later: "\<forall>j<length args. k < j \<and> typeof (args ! j) = TFunction \<longrightarrow>
          callback_token env (draws ?st2) args j \<noteq> callback_token env (draws ?st2) args k"
      proof (intro allI impI)
        fix j assume "j < length args" "k < j \<and> typeof (args ! j) = TFunction"
        then show "callback_token env (draws ?st2) args j
            \<noteq> callback_token env (draws ?st2) args k"
          using Cons.prems(4) [rule_format, of "Suc j"] Suc True
          by (simp add: callback_token_Suc)
      qed
      have "callMap st3 (''callback-'' @ callback_token env (draws ?st2) args k)
          = Some (args ! k)"
        using m k later by (rule Cons.IH)
      then show ?thesis using Suc True by (simp add: r callback_token_Suc)
    next
      case False
      obtain rest st3 where m: "marshal_args env st args = (rest, st3)"
        by (cases "marshal_args env st args")
      have r: "st' = st3" using Cons.prems(1) False m by simp
      have later: "\<forall>j<length args. k < j \<and> typeof (args ! j) = TFunction \<longrightarrow>
          callback_token env (draws st) args j \<noteq> callback_token env (draws st) args k"
      proof (intro allI impI)
        fix j assume "j < length args" "k < j \<and> typeof (args ! j) = TFunction"
        then show "callback_token env (draws st) args j \<noteq> callback_token env (draws st) args k"
          using Cons.prems(4) [rule_format, of "Suc j"] Suc False
          by (simp add: callback_token_Suc)
      qed
      have "callMap st3 (''callback-'' @ callback_token env (draws st) args k) = Some (args ! k)"
        using m k later by (rule Cons.IH)
      then show ?thesis using Suc False by (simp add: r callback_token_Suc)
    qed
  qed
qed

lemma result_settles:
  assumes "promiseMap st token = Some p" and "p < length (futures st)"
    and "futures st ! p = Pending"
  shows "futures (messageHandler env st (success_payload data (JStr token))) ! p = Resolved data"
    and "futures (messageHandler env st (fail_payload error (JStr token))) ! p = Rejected error"
proof -
  have "messageHandler env st (success_payload data (JStr token))
      = handle_result st (success_payload data (JStr token)) p"
    using assms(1) by (intro messageHandler_result) (simp_all add: success_payload_def)
  then show "futures (messageHandler env st (success_payload data (JStr token))) ! p
      = Resolved data"
    using handle_result_settles(1) [OF assms(2,3), of "success_payload data (JStr token)"]
    by (simp add: success_payload_def)
  have "messageHandler env st (fail_payload error (JStr token))
      = handle_result st (fail_payload error (JStr token)) p"
    using assms(1) by (intro messageHandler_result) (simp_all add: fail_payload_def)
  then show "futures (messageHandler env st (fail_payload error (JStr token))) ! p
      = Rejected error"
    using handle_result_settles(2) [OF assms(2,3), of "fail_payload error (JStr token)"]
    by (simp add: fail_payload_def)
qed

lemma dispatch_function:
  assumes "get_field payload ''method'' = JStr methodName"
    and "callMap st methodName = Some (JFun f)"
    and "get_field payload ''args'' = JArr args"
    and "fun_body env f (map rewrite_arg args) = (calls, out)"
  shows "dispatch env st payload =
     (case out of
        Throws error \<Rightarrow>
          postMessage (fold (invoke_callback env) calls
                         (st\<lparr>invoked := invoked st @ [(JFun f, map rewrite_arg args)]\<rparr>))
            (fail_payload (formatError error) (get_field payload ''token''))
      | _ \<Rightarrow>
          (fold (invoke_callback env) calls
             (st\<lparr>invoked := invoked st @ [(JFun f, map rewrite_arg args)]\<rparr>))
          \<lparr>awaiting :=
             awaiting (fold (invoke_callback env) calls
                         (st\<lparr>invoked := invoked st @ [(JFun f, map rewrite_arg args)]\<rparr>))
             @ [(out, get_field payload ''token'')]\<rparr>)"
proof -
  have a: "array_map rewrite_arg (get_field payload ''args'') = Inr (map rewrite_arg args)"
    using assms(3) by simp
  have b: "apply_method env st
             (case map_get (callMap st) (get_field payload ''method'') of
                Some m \<Rightarrow> m | None \<Rightarrow> JUndefined) (map rewrite_arg args)
           = (out, fold (invoke_callback env) calls
                     (st\<lparr>invoked := invoked st @ [(JFun f, map rewrite_arg args)]\<rparr>))"
    using assms(1,2,4) by (simp add: apply_method_def map_get_def)
  show ?thesis by (rule dispatch_cases [OF a b])
qed

text \<open>
  The result of a dispatch goes out when the dispatch goes on, not when the payload
  comes in: a call made in between is sent first, and after a \<^verbatim>\<open>destroy\<close> in between
  nothing is sent at all.
\<close>

lemma result_sent_after_await:
  "sent (run example_env example_rpc
      [Deliver (JObj [(''type'', JStr ''call''), (''method'', JStr ''add''),
                      (''args'', JArr [JNum 1, JNum 2]), (''token'', JStr ''t1'')]),
       Call ''foo'' [],
       Resume 0])
     = [JObj [(''type'', JStr ''call''), (''method'', JStr ''foo''),
              (''args'', JArr []), (''token'', JStr ''rsx'')],
        JObj [(''type'', JStr ''call-result''), (''result'', JStr ''success''),
              (''data'', JNum 3), (''token'', JStr ''t1'')]]"
  "sent (run example_env example_rpc
      [Deliver (JObj [(''type'', JStr ''call''), (''method'', JStr ''add''),
                      (''args'', JArr [JNum 1, JNum 2]), (''token'', JStr ''t1'')]),
       Destroy,
       Resume 0])
     = []"
proof -
  let ?P = "JObj [(''type'', JStr ''call''), (''method'', JStr ''add''),
                  (''args'', JArr [JNum 1, JNum 2]), (''token'', JStr ''t1'')]"
  have m: "messageHandler example_env example_rpc ?P = dispatch example_env example_rpc ?P"
    by (rule messageHandler_call) (simp_all add: map_has_def map_get_def example_rpc_fields)
  have d: "dispatch example_env example_rpc ?P
      = example_rpc\<lparr>invoked := [(JFun 0, [JNum 1, JNum 2])],
                     awaiting := [(Returns (JNum 3), JStr ''t1'')]\<rparr>"
    by (subst dispatch_function [where methodName = "''add''" and f = 0
          and args = "[JNum 1, JNum 2]" and calls = "[]" and out = "Returns (JNum 3)"])
       (simp_all add: example_rpc_fields example_env_def rewrite_arg_def)
  have s: "deliver example_env example_rpc ?P
      = example_rpc\<lparr>invoked := [(JFun 0, [JNum 1, JNum 2])],
                     awaiting := [(Returns (JNum 3), JStr ''t1'')]\<rparr>"
    using m d by (simp add: deliver_def example_rpc_fields)
  have tk: "token_at example_env 0 = ''rsx''"
    by (simp add: token_at_def example_env_def digit_char_def)
  show "sent (run example_env example_rpc [Deliver ?P, Call ''foo'' [], Resume 0])
     = [JObj [(''type'', JStr ''call''), (''method'', JStr ''foo''),
              (''args'', JArr []), (''token'', JStr ''rsx'')],
        JObj [(''type'', JStr ''call-result''), (''result'', JStr ''success''),
              (''data'', JNum 3), (''token'', JStr ''t1'')]]"
    by (simp add: run_def s callProxy_def generateToken_def tk new_promise_def
        postMessage_def call_payload_def example_rpc_fields
        resume_def awaited_def after_await_def success_payload_def)
  show "sent (run example_env example_rpc [Deliver ?P, Destroy, Resume 0]) = []"
    by (simp add: run_def s destroy_def example_rpc_fields resume_def awaited_def after_await_def
        postMessage_def)
qed


section \<open>Inbound calls that are dropped\<close>

text \<open>
  C6.  An inbound payload of type \<^verbatim>\<open>call\<close> whose method is not a key of the registry
  leaves the instance exactly as it was: no entry is invoked, no payload is sent, no
  future is touched, and the handler ends without an error.
\<close>

theorem unknown_method_dropped:
  assumes "get_field payload ''type'' = JStr ''call''"
    and "\<not> map_has (callMap st) (get_field payload ''method'')"
  shows "messageHandler env st payload = st"
  using assms by (simp add: messageHandler_def)

theorem unknown_method_dropped_witness:
  "get_field (call_payload ''sub'' [JNum 1] ''t1'') ''type'' = JStr ''call''
   \<and> \<not> map_has (callMap example_rpc) (get_field (call_payload ''sub'' [JNum 1] ''t1'') ''method'')
   \<and> messageHandler example_env example_rpc (call_payload ''sub'' [JNum 1] ''t1'') = example_rpc"
  using unknown_method_dropped [of "call_payload ''sub'' [JNum 1] ''t1''" example_rpc example_env]
  by (simp add: call_payload_def example_rpc_def constructor_def map_has_def map_get_def)

lemma register_empty_name:
  "register st (JObj [('''', f)]) JUndefined
     = Inr (JObj [('''', f)], st\<lparr>callMap := (callMap st)('''' \<mapsto> f)\<rparr>)"
  by (simp add: register_def methods_of_def namespace_of_def method_key_def)

text \<open>
  C9.  An inbound payload of type \<^verbatim>\<open>call\<close> whose method is the empty string leaves
  the instance exactly as it was, whatever the registry holds: the test
  \<^verbatim>\<open>payload?.method &&\<close> fails before the registry is asked.  The witness registers a
  method named by the empty string first, so the key is present when the call is
  dropped.
\<close>

theorem empty_method_dropped:
  assumes "get_field payload ''type'' = JStr ''call''"
    and "get_field payload ''method'' = JStr ''''"
  shows "messageHandler env st payload = st"
  using assms by (simp add: messageHandler_def)

theorem empty_method_dropped_witness:
  "register example_rpc (JObj [('''', JFun 0)]) JUndefined
     = Inr (JObj [('''', JFun 0)], example_rpc\<lparr>callMap := (callMap example_rpc)('''' \<mapsto> JFun 0)\<rparr>)
   \<and> map_has (callMap (example_rpc\<lparr>callMap := (callMap example_rpc)('''' \<mapsto> JFun 0)\<rparr>)) (JStr '''')
   \<and> messageHandler example_env
        (example_rpc\<lparr>callMap := (callMap example_rpc)('''' \<mapsto> JFun 0)\<rparr>)
        (call_payload '''' [] ''t1'')
      = example_rpc\<lparr>callMap := (callMap example_rpc)('''' \<mapsto> JFun 0)\<rparr>"
  using empty_method_dropped [of "call_payload '''' [] ''t1''" example_env
      "example_rpc\<lparr>callMap := (callMap example_rpc)('''' \<mapsto> JFun 0)\<rparr>"]
  by (simp add: register_empty_name call_payload_def map_has_def map_get_def)

section \<open>Inbound results\<close>

text \<open>
  C2.  For an inbound payload of type \<^verbatim>\<open>call-result\<close>: when its token is not a key of
  the Pending-Call Table the instance stays exactly as it was.  When the token is a
  key, holding the future \<open>p\<close>, the entry is removed whatever the result says, no
  registry entry is invoked and no future other than \<open>p\<close> changes; and \<open>p\<close> being
  pending, as the future of every entry of a well-formed table is, \<^verbatim>\<open>success\<close>
  resolves it with the payload's \<^verbatim>\<open>data\<close> and \<^verbatim>\<open>fail\<close> rejects it with the payload's
  \<^verbatim>\<open>error\<close>.  A result payload with the same token that is handled next, the same
  one again or another, changes nothing any more.
\<close>

theorem call_result_settles_once:
  assumes "get_field payload ''type'' = JStr ''call-result''"
  shows "(\<not> map_has (promiseMap st) (get_field payload ''token'')
            \<longrightarrow> messageHandler env st payload = st)
     \<and> (get_field payload ''token'' = JStr token \<and> promiseMap st token = Some p \<longrightarrow>
          promiseMap (messageHandler env st payload) = (promiseMap st)(token := None)
        \<and> invoked (messageHandler env st payload) = invoked st
        \<and> (\<forall>q. q \<noteq> p \<longrightarrow> futures (messageHandler env st payload) ! q = futures st ! q)
        \<and> (p < length (futures st) \<and> futures st ! p = Pending \<longrightarrow>
             (get_field payload ''result'' = JStr ''success'' \<longrightarrow>
                futures (messageHandler env st payload) ! p
                  = Resolved (get_field payload ''data''))
           \<and> (get_field payload ''result'' = JStr ''fail'' \<longrightarrow>
                futures (messageHandler env st payload) ! p
                  = Rejected (get_field payload ''error''))))
     \<and> (get_field again ''type'' = JStr ''call-result''
          \<and> get_field again ''token'' = get_field payload ''token'' \<longrightarrow>
          messageHandler env (messageHandler env st payload) again
            = messageHandler env st payload)"
proof (intro conjI impI)
  assume "\<not> map_has (promiseMap st) (get_field payload ''token'')"
  then show "messageHandler env st payload = st"
    using assms by (rule messageHandler_no_entry [rotated])
next
  assume a: "get_field payload ''token'' = JStr token \<and> promiseMap st token = Some p"
  then have eq: "messageHandler env st payload = handle_result st payload p"
    using assms by (simp add: messageHandler_result)
  show "promiseMap (messageHandler env st payload) = (promiseMap st)(token := None)"
    using a by (simp add: eq handle_result_promiseMap)
  show "invoked (messageHandler env st payload) = invoked st" by (simp add: eq)
  show "\<forall>q. q \<noteq> p \<longrightarrow> futures (messageHandler env st payload) ! q = futures st ! q"
    by (simp add: eq handle_result_other)
  { assume b: "p < length (futures st) \<and> futures st ! p = Pending"
    { assume "get_field payload ''result'' = JStr ''success''"
      then show "futures (messageHandler env st payload) ! p
          = Resolved (get_field payload ''data'')"
        using b by (simp add: eq handle_result_settles) }
    { assume "get_field payload ''result'' = JStr ''fail''"
      then show "futures (messageHandler env st payload) ! p
          = Rejected (get_field payload ''error'')"
        using b by (simp add: eq handle_result_settles) } }
next
  assume b: "get_field again ''type'' = JStr ''call-result''
     \<and> get_field again ''token'' = get_field payload ''token''"
  show "messageHandler env (messageHandler env st payload) again = messageHandler env st payload"
  proof (cases "map_has (promiseMap st) (get_field payload ''token'')")
    case True
    then obtain token p where t: "get_field payload ''token'' = JStr token"
      and p: "promiseMap st token = Some p"
      using map_has_get by blast
    have eq: "messageHandler env st payload = handle_result st payload p"
      using assms t p by (rule messageHandler_result)
    have "\<not> map_has (promiseMap (handle_result st payload p)) (get_field again ''token'')"
      using b by (simp add: t handle_result_promiseMap map_has_def map_get_def)
    then show ?thesis
      unfolding eq using b by (intro messageHandler_no_entry) simp_all
  next
    case False
    then have "messageHandler env st payload = st"
      using assms by (rule messageHandler_no_entry [rotated])
    moreover have "messageHandler env st again = st"
      using False b by (intro messageHandler_no_entry) simp_all
    ultimately show ?thesis by simp
  qed
qed

theorem call_result_settles_once_witness:
  "get_field (success_payload (JNum 3) (JStr ''rsx'')) ''type'' = JStr ''call-result''
   \<and> promiseMap example_pending ''rsx'' = Some 0
   \<and> futures example_pending ! 0 = Pending
   \<and> futures (messageHandler example_env example_pending
                 (success_payload (JNum 3) (JStr ''rsx''))) ! 0 = Resolved (JNum 3)
   \<and> promiseMap (messageHandler example_env example_pending
                    (success_payload (JNum 3) (JStr ''rsx''))) ''rsx'' = None
   \<and> messageHandler example_env
        (messageHandler example_env example_pending (success_payload (JNum 3) (JStr ''rsx'')))
        (fail_payload (JStr ''late'') (JStr ''rsx''))
      = messageHandler example_env example_pending (success_payload (JNum 3) (JStr ''rsx''))"
proof -
  let ?P = "success_payload (JNum 3) (JStr ''rsx'')"
  have h: "get_field ?P ''type'' = JStr ''call-result''"
    by (simp add: success_payload_def)
  have f: "get_field ?P ''token'' = JStr ''rsx''" "get_field ?P ''result'' = JStr ''success''"
    "get_field ?P ''data'' = JNum 3"
    "get_field (fail_payload (JStr ''late'') (JStr ''rsx'')) ''type'' = JStr ''call-result''"
    "get_field (fail_payload (JStr ''late'') (JStr ''rsx'')) ''token'' = JStr ''rsx''"
    by (simp_all add: success_payload_def fail_payload_def)
  show ?thesis
    using call_result_settles_once [OF h, where st = example_pending and token = "''rsx''"
        and p = 0 and env = example_env and again = "fail_payload (JStr ''late'') (JStr ''rsx'')"]
      h f
    by (simp add: example_pending_table)
qed

text \<open>
  C10.  For an inbound payload of type \<^verbatim>\<open>call-result\<close> whose token is a key of a
  well-formed Pending-Call Table but whose \<^verbatim>\<open>result\<close> is neither \<^verbatim>\<open>success\<close> nor
  \<^verbatim>\<open>fail\<close>: the entry is removed and nothing else changes, so the caller's future is
  still pending; and it stays pending after any sequence of later events (deliveries,
  calls, registrations, destruction), since no entry can reach it any more.
\<close>

theorem unrecognised_result_abandons_future:
  assumes "table_ok st"
    and "get_field payload ''type'' = JStr ''call-result''"
    and "get_field payload ''token'' = JStr token"
    and "promiseMap st token = Some p"
    and "get_field payload ''result'' \<noteq> JStr ''success''"
    and "get_field payload ''result'' \<noteq> JStr ''fail''"
  shows "messageHandler env st payload = st\<lparr>promiseMap := (promiseMap st)(token := None)\<rparr>
     \<and> futures st ! p = Pending
     \<and> (\<forall>events. futures (run env (messageHandler env st payload) events) ! p = Pending)"
proof -
  have old: "p < length (futures st) \<and> futures st ! p = Pending"
    using assms(1,4) by (simp add: table_ok_def)
  have inj: "\<And>t. promiseMap st t = Some p \<Longrightarrow> t = token"
    using assms(1,4) unfolding table_ok_def by blast
  have eq: "messageHandler env st payload = st\<lparr>promiseMap := (promiseMap st)(token := None)\<rparr>"
    using assms(3,5,6) messageHandler_result [OF assms(2,3,4), of env]
    by (simp add: handle_result_def)
  have "abandoned p (messageHandler env st payload)"
    using old inj by (auto simp: eq abandoned_def)
  then have "\<And>events. abandoned p (run env (messageHandler env st payload) events)"
    by (rule abandoned_run)
  then show ?thesis using eq old by (simp add: abandoned_def)
qed

theorem unrecognised_result_abandons_future_witness:
  "table_ok example_pending
   \<and> promiseMap example_pending ''rsx'' = Some 0
   \<and> messageHandler example_env example_pending
        (JObj [(''type'', JStr ''call-result''), (''result'', JStr ''maybe''),
               (''token'', JStr ''rsx'')])
      = example_pending\<lparr>promiseMap := (promiseMap example_pending)(''rsx'' := None)\<rparr>
   \<and> futures (run example_env
        (messageHandler example_env example_pending
           (JObj [(''type'', JStr ''call-result''), (''result'', JStr ''maybe''),
                  (''token'', JStr ''rsx'')]))
        [Deliver (success_payload (JNum 3) (JStr ''rsx'')), Call ''add'' []]) ! 0 = Pending"
proof -
  let ?P = "JObj [(''type'', JStr ''call-result''), (''result'', JStr ''maybe''),
                  (''token'', JStr ''rsx'')]"
  have ok: "table_ok example_pending"
    unfolding example_pending_def example_rpc_def
    by (rule table_ok_callProxy) (rule table_ok_constructor)
  have p: "promiseMap example_pending ''rsx'' = Some 0"
    by (simp add: example_pending_table)
  have "messageHandler example_env example_pending ?P
          = example_pending\<lparr>promiseMap := (promiseMap example_pending)(''rsx'' := None)\<rparr>
     \<and> futures example_pending ! 0 = Pending
     \<and> (\<forall>events. futures (run example_env
            (messageHandler example_env example_pending ?P) events) ! 0 = Pending)"
    by (rule unrecognised_result_abandons_future [OF ok _ _ p]) simp_all
  then show ?thesis using ok p by blast
qed

section \<open>After destroy\<close>

text \<open>
  C8.  After a \<^verbatim>\<open>destroy\<close> that went through, the handler is no longer subscribed and
  the Pending-Call Table and the registry are empty.  Payloads that arrive at the
  adapter afterwards leave the instance as it is, and so would payloads handed to
  \<^verbatim>\<open>messageHandler\<close> itself, the tables being empty.  Whatever events follow,
  deliveries among other uses of the instance, no registry entry is invoked and no
  future is settled: the futures are those of before, followed by pending ones.
\<close>

theorem destroy_makes_inert:
  assumes "destroy st = Inr st'"
  shows "\<not> listening st' \<and> promiseMap st' = Map.empty \<and> callMap st' = Map.empty
     \<and> (\<forall>payloads. foldl (deliver env) st' payloads = st')
     \<and> (\<forall>payloads. foldl (messageHandler env) st' payloads = st')
     \<and> (\<forall>events. invoked (run env st' events) = invoked st'
           \<and> (\<exists>n. futures (run env st' events) = futures st' @ replicate n Pending))"
proof -
  have l: "\<not> listening st'" and p: "promiseMap st' = Map.empty" and c: "callMap st' = Map.empty"
    using assms by (auto simp: destroy_def split: if_splits)
  have "\<And>payloads. foldl (deliver env) st' payloads = st'"
    by (rule foldl_fixed) (simp add: deliver_def l)
  moreover have "\<And>payloads. foldl (messageHandler env) st' payloads = st'"
    by (rule foldl_fixed) (rule messageHandler_empty_tables [OF c p])
  ultimately show ?thesis using l p c quiet_run [OF l, of env] by simp
qed

theorem destroy_makes_inert_witness:
  "destroy example_pending = Inr example_destroyed
   \<and> \<not> listening example_destroyed
   \<and> promiseMap example_destroyed = Map.empty \<and> callMap example_destroyed = Map.empty
   \<and> foldl (deliver example_env) example_destroyed
        [success_payload (JNum 3) (JStr ''rsx''), call_payload ''add'' [] ''t''] = example_destroyed
   \<and> foldl (messageHandler example_env) example_destroyed
        [success_payload (JNum 3) (JStr ''rsx''), call_payload ''add'' [] ''t''] = example_destroyed
   \<and> invoked (run example_env example_destroyed
        [Register (JObj [(''add'', JFun 0)]) JUndefined, Deliver (call_payload ''add'' [] ''t'')])
      = invoked example_destroyed"
proof -
  have d: "destroy example_pending = Inr example_destroyed"
    by (simp add: destroy_def example_destroyed_def example_pending_table)
  show ?thesis
    using destroy_makes_inert [OF d, of example_env] d by blast
qed

section \<open>A handler that fails\<close>




section \<open>Payloads that are not routed\<close>

text \<open>
  C7 as stated does not hold.  A payload of type \<^verbatim>\<open>call\<close> for the registered method
  \<^verbatim>\<open>add\<close> that has no token is not a Call Payload of the wire schema, and not a
  Result Payload either, yet the method is invoked when the payload comes in, and
  when the dispatch goes on a \<^verbatim>\<open>success\<close> result is sent, with an undefined token:
  the handler tests the type and the method only.
\<close>

theorem registered_call_not_validated:
  "\<not> well_formed_call (JObj [(''type'', JStr ''call''), (''method'', JStr ''add''),
                              (''args'', JArr [JNum 1, JNum 2])])
   \<and> \<not> well_formed_result (JObj [(''type'', JStr ''call''), (''method'', JStr ''add''),
                                  (''args'', JArr [JNum 1, JNum 2])])
   \<and> invoked (messageHandler example_env example_rpc
        (JObj [(''type'', JStr ''call''), (''method'', JStr ''add''),
               (''args'', JArr [JNum 1, JNum 2])]))
      = [(JFun 0, [JNum 1, JNum 2])]
   \<and> sent (resume 0 (messageHandler example_env example_rpc
        (JObj [(''type'', JStr ''call''), (''method'', JStr ''add''),
               (''args'', JArr [JNum 1, JNum 2])])))
      = [JObj [(''type'', JStr ''call-result''), (''result'', JStr ''success''),
               (''data'', JNum 3), (''token'', JUndefined)]]"
proof -
  let ?P = "JObj [(''type'', JStr ''call''), (''method'', JStr ''add''),
                  (''args'', JArr [JNum 1, JNum 2])]"
  have m: "messageHandler example_env example_rpc ?P = dispatch example_env example_rpc ?P"
    by (rule messageHandler_call) (simp_all add: map_has_def map_get_def example_rpc_fields)
  have d: "dispatch example_env example_rpc ?P
      = example_rpc\<lparr>invoked := [(JFun 0, [JNum 1, JNum 2])],
                     awaiting := [(Returns (JNum 3), JUndefined)]\<rparr>"
    by (subst dispatch_function [where methodName = "''add''" and f = 0
          and args = "[JNum 1, JNum 2]" and calls = "[]" and out = "Returns (JNum 3)"])
       (simp_all add: example_rpc_fields example_env_def rewrite_arg_def)
  have w: "\<not> well_formed_call ?P" "\<not> well_formed_result ?P"
    by (simp_all add: well_formed_call_def well_formed_result_def)
  have r: "sent (resume 0 (messageHandler example_env example_rpc ?P))
      = [JObj [(''type'', JStr ''call-result''), (''result'', JStr ''success''),
               (''data'', JNum 3), (''token'', JUndefined)]]"
    unfolding m d
    by (simp add: resume_def awaited_def after_await_def postMessage_def success_payload_def
        example_rpc_fields)
  have i: "invoked (messageHandler example_env example_rpc ?P) = [(JFun 0, [JNum 1, JNum 2])]"
    unfolding m d by simp
  show ?thesis using w i r by (intro conjI)
qed

text \<open>
  C7, amended.  For every inbound payload other than a \<^verbatim>\<open>call\<close> whose method is
  truthy and a key of the registry, be it malformed, unrelated or a result, no registry
  entry is invoked and the registry stays as it is.  Unless it is a \<^verbatim>\<open>call-result\<close>
  with a pending token and the result \<^verbatim>\<open>success\<close> or \<^verbatim>\<open>fail\<close>, nothing is sent and
  no future is touched; such a payload is a Result Payload of the wire schema, so
  nothing is sent and no future is touched for any payload that is not one.  Unless
  the payload is a \<^verbatim>\<open>call-result\<close> with a pending token at all, the whole instance
  stays as it is.  The handler returns the next state in every case.
\<close>

theorem unroutable_payload_ignored:
  assumes "\<not> (get_field payload ''type'' = JStr ''call''
              \<and> truthy (get_field payload ''method'')
              \<and> map_has (callMap st) (get_field payload ''method''))"
  shows "invoked (messageHandler env st payload) = invoked st
     \<and> callMap (messageHandler env st payload) = callMap st
     \<and> (\<not> (get_field payload ''type'' = JStr ''call-result''
              \<and> map_has (promiseMap st) (get_field payload ''token'')
              \<and> (get_field payload ''result'' = JStr ''success''
                   \<or> get_field payload ''result'' = JStr ''fail''))
          \<longrightarrow> sent (messageHandler env st payload) = sent st
            \<and> futures (messageHandler env st payload) = futures st)
     \<and> (\<not> well_formed_result payload
          \<longrightarrow> sent (messageHandler env st payload) = sent st
            \<and> futures (messageHandler env st payload) = futures st)
     \<and> (\<not> (get_field payload ''type'' = JStr ''call-result''
              \<and> map_has (promiseMap st) (get_field payload ''token''))
          \<longrightarrow> messageHandler env st payload = st)"
proof (cases "get_field payload ''type'' = JStr ''call-result''
              \<and> map_has (promiseMap st) (get_field payload ''token'')")
  case True
  then obtain token p where t: "get_field payload ''token'' = JStr token"
    and "promiseMap st token = Some p"
    using map_has_get by blast
  then have eq: "messageHandler env st payload = handle_result st payload p"
    using True by (simp add: messageHandler_result)
  have "get_field payload ''result'' \<noteq> JStr ''success''
        \<and> get_field payload ''result'' \<noteq> JStr ''fail''
      \<longrightarrow> handle_result st payload p = st\<lparr>promiseMap := (promiseMap st)(token := None)\<rparr>"
    by (simp add: handle_result_def t)
  moreover have "typeof (get_field payload ''token'') = TString" by (simp add: t)
  ultimately show ?thesis using True eq by (auto simp: well_formed_result_def)
next
  case False
  then have "messageHandler env st payload = st"
    using assms by (auto simp: messageHandler_def)
  then show ?thesis by simp
qed

theorem unroutable_payload_ignored_witness:
  "messageHandler example_env example_pending (JStr ''hello'') = example_pending
   \<and> messageHandler example_env example_pending
        (JObj [(''type'', JStr ''call''), (''method'', JNum 5), (''args'', JArr [])])
      = example_pending
   \<and> sent (messageHandler example_env example_pending
        (JObj [(''type'', JStr ''call-result''), (''token'', JStr ''rsx'')]))
      = sent example_pending
   \<and> invoked (messageHandler example_env example_pending
        (JObj [(''type'', JStr ''call-result''), (''token'', JStr ''rsx'')]))
      = invoked example_pending"
proof -
  have a: "messageHandler example_env example_pending (JStr ''hello'') = example_pending"
    using unroutable_payload_ignored [of "JStr ''hello''" example_pending example_env]
    by simp
  have b: "messageHandler example_env example_pending
        (JObj [(''type'', JStr ''call''), (''method'', JNum 5), (''args'', JArr [])])
      = example_pending"
    using unroutable_payload_ignored [of
        "JObj [(''type'', JStr ''call''), (''method'', JNum 5), (''args'', JArr [])]"
        example_pending example_env]
    by (simp add: map_has_def map_get_def)
  have c: "sent (messageHandler example_env example_pending
        (JObj [(''type'', JStr ''call-result''), (''token'', JStr ''rsx'')]))
      = sent example_pending
    \<and> invoked (messageHandler example_env example_pending
        (JObj [(''type'', JStr ''call-result''), (''token'', JStr ''rsx'')]))
      = invoked example_pending"
    using unroutable_payload_ignored [of
        "JObj [(''type'', JStr ''call-result''), (''token'', JStr ''rsx'')]"
        example_pending example_env]
    by simp
  show ?thesis using a b c by simp
qed

section \<open>Namespaces\<close>

text \<open>
  C3 as stated does not hold for the empty namespace.  \<^verbatim>\<open>use("").add(1)\<close> does what
  \<^verbatim>\<open>callProxy.add(1)\<close> does: the payload it sends names the method \<^verbatim>\<open>add\<close>, not
  \<^verbatim>\<open>:add\<close>, so both calls reach the same registry key.
\<close>

theorem empty_namespace_is_no_namespace:
  "step example_env example_rpc (UseCall '''' ''add'' [JNum 1])
     = step example_env example_rpc (Call ''add'' [JNum 1])
   \<and> sent (step example_env example_rpc (UseCall '''' ''add'' [JNum 1]))
     = [JObj [(''type'', JStr ''call''), (''method'', JStr ''add''),
              (''args'', JArr [JNum 1]), (''token'', JStr ''rsx'')]]
   \<and> JStr ''add'' \<noteq> JStr ('''' @ '':'' @ ''add'')"
  by (simp add: use_def this_callProxy_def method_key_def example_rpc_fields callProxy_def
      generateToken_def token_at_def new_promise_def postMessage_def call_payload_def
      example_env_def digit_char_def)

text \<open>
  C3, amended.  For every namespace other than the empty string and every method
  name, calling the method on the proxy of \<^verbatim>\<open>use(namespace)\<close> is
  \<^verbatim>\<open>this.callProxy[key](...)\<close> with the key \<^verbatim>\<open>namespace:methodName\<close>: before
  \<^verbatim>\<open>destroy\<close> it is the call of the Call Proxy under that key, with the same future
  and the same instance afterwards, and while the adapter is there the payload sent is
  \<^verbatim>\<open>{type: "call", method: key, args, token}\<close>, with the arguments and the token that
  the unnamespaced call of the same method sends under the bare method name.  The key
  differs from the bare method name, so the namespaced and the unnamespaced call reach
  different registry keys.  For the empty namespace, and every method name and
  argument list, the call on the proxy of \<^verbatim>\<open>use("")\<close> is \<^verbatim>\<open>this.callProxy[methodName](...)\<close>:
  before \<^verbatim>\<open>destroy\<close> it is the unnamespaced call itself.
\<close>

theorem use_prefixes_namespace:
  "(namespace \<noteq> '''' \<longrightarrow>
      use env st namespace methodName args
        = this_callProxy env st (namespace @ '':'' @ methodName) args
    \<and> (callProxy_defined st \<longrightarrow>
         use env st namespace methodName args
           = Inr (callProxy env st (namespace @ '':'' @ methodName) args))
    \<and> (adapter_defined st \<longrightarrow>
         (\<exists>args' token.
            sent (snd (callProxy env st (namespace @ '':'' @ methodName) args))
              = sent st @ [JObj [(''type'', JStr ''call''),
                                 (''method'', JStr (namespace @ '':'' @ methodName)),
                                 (''args'', JArr args'), (''token'', JStr token)]]
          \<and> sent (snd (callProxy env st methodName args))
              = sent st @ [JObj [(''type'', JStr ''call''), (''method'', JStr methodName),
                                 (''args'', JArr args'), (''token'', JStr token)]]))
    \<and> namespace @ '':'' @ methodName \<noteq> methodName)
   \<and> use env st '''' methodName args = this_callProxy env st methodName args
   \<and> (callProxy_defined st \<longrightarrow>
        use env st '''' methodName args = Inr (callProxy env st methodName args))"
proof -
  let ?key = "namespace @ '':'' @ methodName"
  let ?args' = "fst (marshal_args env st args)"
  let ?token = "fst (generateToken env (snd (marshal_args env st args)))"
  have "length ?key \<noteq> length methodName" by simp
  then have differ: "?key \<noteq> methodName" by metis
  have both: "sent (snd (callProxy env st ?key args))
        = sent st @ [JObj [(''type'', JStr ''call''), (''method'', JStr ?key),
                           (''args'', JArr ?args'), (''token'', JStr ?token)]]
      \<and> sent (snd (callProxy env st methodName args))
        = sent st @ [JObj [(''type'', JStr ''call''), (''method'', JStr methodName),
                           (''args'', JArr ?args'), (''token'', JStr ?token)]]"
    if "adapter_defined st"
    using callProxy_sent_eq [OF that] by (simp add: call_payload_def)
  have payload: "\<exists>args' token.
        sent (snd (callProxy env st ?key args))
          = sent st @ [JObj [(''type'', JStr ''call''), (''method'', JStr ?key),
                             (''args'', JArr args'), (''token'', JStr token)]]
      \<and> sent (snd (callProxy env st methodName args))
          = sent st @ [JObj [(''type'', JStr ''call''), (''method'', JStr methodName),
                             (''args'', JArr args'), (''token'', JStr token)]]"
    if "adapter_defined st"
    using both [OF that] by (intro exI)
  have named: "use env st namespace methodName args = this_callProxy env st ?key args"
    if "namespace \<noteq> ''''"
    using that by (simp add: use_def method_key_def)
  have bare: "use env st '''' methodName args = this_callProxy env st methodName args"
    by (simp add: use_def method_key_def)
  show ?thesis
    using differ payload named bare by (simp add: this_callProxy_def)
qed

theorem use_prefixes_namespace_witness:
  "use example_env example_rpc ''ns'' ''add'' [JNum 1]
     = Inr (callProxy example_env example_rpc ''ns:add'' [JNum 1])
   \<and> sent (snd (callProxy example_env example_rpc ''ns:add'' [JNum 1]))
     = [JObj [(''type'', JStr ''call''), (''method'', JStr ''ns:add''),
              (''args'', JArr [JNum 1]), (''token'', JStr ''rsx'')]]
   \<and> sent (snd (callProxy example_env example_rpc ''add'' [JNum 1]))
     = [JObj [(''type'', JStr ''call''), (''method'', JStr ''add''),
              (''args'', JArr [JNum 1]), (''token'', JStr ''rsx'')]]
   \<and> use example_env example_rpc '''' ''add'' [JNum 1]
     = Inr (callProxy example_env example_rpc ''add'' [JNum 1])"
proof -
  have n: "''ns'' \<noteq> ''''" by simp
  have c: "callProxy_defined example_rpc" by (simp add: example_rpc_fields)
  note t = use_prefixes_namespace [where namespace = "''ns''" and st = example_rpc
      and env = example_env and methodName = "''add''" and args = "[JNum 1]"]
  have "use example_env example_rpc ''ns'' ''add'' [JNum 1]
      = Inr (callProxy example_env example_rpc (''ns'' @ '':'' @ ''add'') [JNum 1])"
    using t n c by blast
  then have u: "use example_env example_rpc ''ns'' ''add'' [JNum 1]
      = Inr (callProxy example_env example_rpc ''ns:add'' [JNum 1])"
    by simp
  have e: "use example_env example_rpc '''' ''add'' [JNum 1]
      = Inr (callProxy example_env example_rpc ''add'' [JNum 1])"
    using t c by blast
  have ev: "sent (snd (callProxy example_env example_rpc ''ns:add'' [JNum 1]))
      = [JObj [(''type'', JStr ''call''), (''method'', JStr ''ns:add''),
               (''args'', JArr [JNum 1]), (''token'', JStr ''rsx'')]]"
    "sent (snd (callProxy example_env example_rpc ''add'' [JNum 1]))
      = [JObj [(''type'', JStr ''call''), (''method'', JStr ''add''),
               (''args'', JArr [JNum 1]), (''token'', JStr ''rsx'')]]"
    by (simp_all add: example_rpc_fields callProxy_def generateToken_def token_at_def
        new_promise_def postMessage_def example_env_def digit_char_def call_payload_def)
  show ?thesis using u ev e by (intro conjI)
qed

text \<open>
  C4 as stated does not hold when the namespace supplied is the empty string:
  \<^verbatim>\<open>register("", {f})\<close> stores \<^verbatim>\<open>f\<close> under the key \<^verbatim>\<open>f\<close>, and the key \<^verbatim>\<open>:f\<close>
  stays absent.
\<close>

theorem empty_namespace_registers_bare_name:
  "register example_rpc (JStr '''') (JObj [(''f'', JFun 9)])
     = Inr (JObj [(''f'', JFun 9)], example_rpc\<lparr>callMap := (callMap example_rpc)(''f'' \<mapsto> JFun 9)\<rparr>)
   \<and> ((callMap example_rpc)(''f'' \<mapsto> JFun 9)) ('''' @ '':'' @ ''f'') = None"
  by (simp add: register_def methods_of_def namespace_of_def method_key_def
      example_rpc_def constructor_def)

text \<open>
  C4, amended.  \<^verbatim>\<open>register\<close> fails with the error
  \<^verbatim>\<open>'methods' cannot be undefined.\<close>, before it writes anything, when neither argument
  is an object other than \<^verbatim>\<open>null\<close>.  Given a method set, alone or after a namespace, it
  returns that same method set, and the registry afterwards is the registry of before
  overridden, entry after entry, with each method under its key: the key is
  \<^verbatim>\<open>namespace:methodName\<close> when a namespace other than the empty string is supplied
  and \<^verbatim>\<open>methodName\<close> otherwise.
\<close>

theorem register_inserts_keys:
  "((typeof arg1 \<noteq> TObject \<or> arg1 = JNull) \<and> (typeof arg2 \<noteq> TObject \<or> arg2 = JNull)
      \<longrightarrow> register st arg1 arg2 = Inl methods_undefined)
   \<and> (typeof methods = TObject \<and> methods \<noteq> JNull \<longrightarrow>
        register st methods JUndefined
          = Inr (methods, st\<lparr>callMap := callMap st ++ map_of (rev (object_entries methods))\<rparr>)
      \<and> register st (JStr namespace) methods
          = Inr (methods, st\<lparr>callMap := callMap st ++ map_of (rev (map
               (\<lambda>(methodName, v).
                  (if namespace \<noteq> '''' then namespace @ '':'' @ methodName else methodName, v))
               (object_entries methods)))\<rparr>))"
proof (intro conjI impI)
  assume "(typeof arg1 \<noteq> TObject \<or> arg1 = JNull) \<and> (typeof arg2 \<noteq> TObject \<or> arg2 = JNull)"
  then show "register st arg1 arg2 = Inl methods_undefined"
    by (cases arg1; cases arg2) (simp_all add: register_def methods_of_def)
next
  assume m: "typeof methods = TObject \<and> methods \<noteq> JNull"
  then have t: "truthy methods" by (cases methods) simp_all
  have "fold (\<lambda>(k, v) m. m(k \<mapsto> v)) (object_entries methods) (callMap st)
      = callMap st ++ map_of (rev (object_entries methods))"
    using fold_map_upd [of "\<lambda>k. k" "object_entries methods" "callMap st"] by simp
  then show "register st methods JUndefined
      = Inr (methods, st\<lparr>callMap := callMap st ++ map_of (rev (object_entries methods))\<rparr>)"
    using m t by (cases methods) (simp_all add: register_def methods_of_def namespace_of_def method_key_def)
  show "register st (JStr namespace) methods
      = Inr (methods, st\<lparr>callMap := callMap st ++ map_of (rev (map
               (\<lambda>(methodName, v).
                  (if namespace \<noteq> '''' then namespace @ '':'' @ methodName else methodName, v))
               (object_entries methods)))\<rparr>)"
    using m t fold_map_upd [of "\<lambda>methodName. if namespace \<noteq> '''' then namespace @ '':'' @ methodName else methodName"
        "object_entries methods" "callMap st"]
    by (simp add: register_def methods_of_def namespace_of_def method_key_def)
qed

theorem register_inserts_keys_witness:
  "register example_rpc (JStr ''ns'') JUndefined = Inl methods_undefined
   \<and> register example_rpc (JObj [(''f'', JFun 9)]) JUndefined
      = Inr (JObj [(''f'', JFun 9)],
             example_rpc\<lparr>callMap := callMap example_rpc ++ [''f'' \<mapsto> JFun 9]\<rparr>)
   \<and> register example_rpc (JStr ''ns'') (JObj [(''f'', JFun 9)])
      = Inr (JObj [(''f'', JFun 9)],
             example_rpc\<lparr>callMap := callMap example_rpc ++ [''ns:f'' \<mapsto> JFun 9]\<rparr>)"
  using register_inserts_keys [where ?arg1.0 = "JStr ''ns''" and ?arg2.0 = JUndefined
      and st = example_rpc and methods = "JObj [(''f'', JFun 9)]" and namespace = "''ns''"]
  by simp

section \<open>Outgoing calls\<close>

text \<open>
  C1.  A call of a function obtained from the Call Proxy, on a live instance, with
  \<open>n\<close> tokens drawn before: the argument list sent has the length of the one given;
  an argument that is a function is replaced by the Callback Reference
  \<^verbatim>\<open>{__rpc_callback__: true, callbackMethodName: "callback-<token>"}\<close> whose token is the
  next one drawn, and any other argument is passed as it is; the registry afterwards is
  the one of before with each function argument, in order, set under its callback key,
  so that a function argument is found under its key unless a later function argument
  of the same call drew the same token; the call token is a new draw, made after those
  of the callbacks, and every token is the time in base 36 followed by the random
  digits of its draw; exactly one payload is sent,
  \<^verbatim>\<open>{type: "call", method, args, token}\<close>; the future returned is new and
  pending and the Pending-Call Table holds it under the call token when the call
  returns; and handling the result payload
  \<^verbatim>\<open>{type: "call-result", result: "success", data, token}\<close>
  (\<^verbatim>\<open>{type: "call-result", result: "fail", error, token}\<close>) of that token next
  resolves (rejects) that future with the payload's data (error).
\<close>

theorem callProxy_call:
  assumes "callProxy env st methodName args = (p, st')" and "adapter_defined st"
  shows "\<exists>args'.
       length args' = length args
     \<and> (\<forall>i<length args. args' ! i =
           (if typeof (args ! i) = TFunction
            then JObj [(''__rpc_callback__'', JBool True),
                       (''callbackMethodName'',
                          JStr (''callback-'' @ callback_token env (draws st) args i))]
            else args ! i))
     \<and> callMap st' = fold (\<lambda>(k, f) m. m(k \<mapsto> f))
                        (callback_registrations env (draws st) args) (callMap st)
     \<and> (\<forall>i<length args. typeof (args ! i) = TFunction
           \<and> (\<forall>j<length args. i < j \<and> typeof (args ! j) = TFunction \<longrightarrow>
                  callback_token env (draws st) args j \<noteq> callback_token env (draws st) args i)
           \<longrightarrow> callMap st' (''callback-'' @ callback_token env (draws st) args i)
                 = Some (args ! i))
     \<and> draws st' = Suc (draws st + length (filter (\<lambda>a. typeof a = TFunction) args))
     \<and> (\<forall>i<length args. callback_token env (draws st) args i
           = to_radix 36 (Date_now env
                 (draws st + length (filter (\<lambda>a. typeof a = TFunction) (take i args))))
             @ random_digits env
                 (draws st + length (filter (\<lambda>a. typeof a = TFunction) (take i args))))
     \<and> call_token env (draws st) args
           = to_radix 36 (Date_now env
                 (draws st + length (filter (\<lambda>a. typeof a = TFunction) args)))
             @ random_digits env
                 (draws st + length (filter (\<lambda>a. typeof a = TFunction) args))
     \<and> sent st' = sent st @
           [JObj [(''type'', JStr ''call''), (''method'', JStr methodName),
                  (''args'', JArr args'),
                  (''token'', JStr (call_token env (draws st) args))]]
     \<and> p = length (futures st) \<and> futures st' = futures st @ [Pending]
     \<and> promiseMap st' = (promiseMap st)(call_token env (draws st) args \<mapsto> p)
     \<and> (\<forall>data. futures (messageHandler env st'
            (JObj [(''type'', JStr ''call-result''), (''result'', JStr ''success''),
                   (''data'', data), (''token'', JStr (call_token env (draws st) args))])) ! p
           = Resolved data)
     \<and> (\<forall>error. futures (messageHandler env st'
            (JObj [(''type'', JStr ''call-result''), (''result'', JStr ''fail''),
                   (''error'', error), (''token'', JStr (call_token env (draws st) args))])) ! p
           = Rejected error)"
proof -
  let ?token = "call_token env (draws st) args"
  obtain args' st1 where m: "marshal_args env st args = (args', st1)"
    by (cases "marshal_args env st args")
  note sp = marshal_args_spec [OF m]
  have s1: "st1 = snd (marshal_args env st args)" using m by simp
  note f = marshal_args_frame [of env st args]
  have g: "generateToken env st1 = (?token, st1\<lparr>draws := Suc (draws st1)\<rparr>)"
    using sp by (simp add: generateToken_def call_token_def)
  have r: "(p, st') = new_promise (postMessage (st1\<lparr>draws := Suc (draws st1)\<rparr>)
                          (call_payload methodName args' ?token)) ?token"
    using assms(1) m g by (simp add: callProxy_def)
  have ad: "adapter_defined st1" and se: "sent st1 = sent st" and fu: "futures st1 = futures st"
    and pm: "promiseMap st1 = promiseMap st"
    using f assms(2) by (simp_all add: s1)
  have p: "p = length (futures st)"
    using r fu by (simp add: new_promise_def postMessage_def)
  have fs: "futures st' = futures st @ [Pending]"
    using r fu by (simp add: new_promise_def postMessage_def)
  have pm': "promiseMap st' = (promiseMap st)(?token \<mapsto> p)"
    using r fu pm by (simp add: new_promise_def postMessage_def)
  have cm: "callMap st' = callMap st1"
    using r by (simp add: new_promise_def postMessage_def)
  have se': "sent st' = sent st @ [call_payload methodName args' ?token]"
    using r ad se by (simp add: new_promise_def postMessage_def)
  have k: "promiseMap st' ?token = Some p" "p < length (futures st')" "futures st' ! p = Pending"
    by (simp_all add: pm' fs p)
  have body: "length args' = length args
     \<and> (\<forall>i<length args. args' ! i =
           (if typeof (args ! i) = TFunction
            then JObj [(''__rpc_callback__'', JBool True),
                       (''callbackMethodName'',
                          JStr (''callback-'' @ callback_token env (draws st) args i))]
            else args ! i))
     \<and> callMap st' = fold (\<lambda>(k, f) m. m(k \<mapsto> f))
                        (callback_registrations env (draws st) args) (callMap st)
     \<and> (\<forall>i<length args. typeof (args ! i) = TFunction
           \<and> (\<forall>j<length args. i < j \<and> typeof (args ! j) = TFunction \<longrightarrow>
                  callback_token env (draws st) args j \<noteq> callback_token env (draws st) args i)
           \<longrightarrow> callMap st' (''callback-'' @ callback_token env (draws st) args i)
                 = Some (args ! i))
     \<and> draws st' = Suc (draws st + length (filter (\<lambda>a. typeof a = TFunction) args))
     \<and> (\<forall>i<length args. callback_token env (draws st) args i
           = to_radix 36 (Date_now env
                 (draws st + length (filter (\<lambda>a. typeof a = TFunction) (take i args))))
             @ random_digits env
                 (draws st + length (filter (\<lambda>a. typeof a = TFunction) (take i args))))
     \<and> ?token
           = to_radix 36 (Date_now env
                 (draws st + length (filter (\<lambda>a. typeof a = TFunction) args)))
             @ random_digits env
                 (draws st + length (filter (\<lambda>a. typeof a = TFunction) args))
     \<and> sent st' = sent st @
           [JObj [(''type'', JStr ''call''), (''method'', JStr methodName),
                  (''args'', JArr args'), (''token'', JStr ?token)]]
     \<and> p = length (futures st) \<and> futures st' = futures st @ [Pending]
     \<and> promiseMap st' = (promiseMap st)(?token \<mapsto> p)
     \<and> (\<forall>data. futures (messageHandler env st'
            (JObj [(''type'', JStr ''call-result''), (''result'', JStr ''success''),
                   (''data'', data), (''token'', JStr ?token)])) ! p
           = Resolved data)
     \<and> (\<forall>error. futures (messageHandler env st'
            (JObj [(''type'', JStr ''call-result''), (''result'', JStr ''fail''),
                   (''error'', error), (''token'', JStr ?token)])) ! p
           = Rejected error)"
  proof (intro conjI)
    from sp have len: "length args' = length args" by (rule conjunct1)
    from sp have nth: "\<forall>i<length args. args' ! i =
           (if typeof (args ! i) = TFunction
            then callback_reference (''callback-'' @ callback_token env (draws st) args i)
            else args ! i)" by (rule conjunct2 [THEN conjunct1])
    from sp have cm1: "callMap st1 = fold (\<lambda>(k, f) m. m(k \<mapsto> f))
                        (callback_registrations env (draws st) args) (callMap st)"
      by (rule conjunct2 [THEN conjunct2, THEN conjunct2])
    show "length args' = length args" by (fact len)
    show "\<forall>i<length args. args' ! i =
           (if typeof (args ! i) = TFunction
            then JObj [(''__rpc_callback__'', JBool True),
                       (''callbackMethodName'',
                          JStr (''callback-'' @ callback_token env (draws st) args i))]
            else args ! i)"
      by (fact nth [unfolded callback_reference_def])
    show "callMap st' = fold (\<lambda>(k, f) m. m(k \<mapsto> f))
                        (callback_registrations env (draws st) args) (callMap st)"
      unfolding cm by (fact cm1)
    show "\<forall>data. futures (messageHandler env st'
            (JObj [(''type'', JStr ''call-result''), (''result'', JStr ''success''),
                   (''data'', data), (''token'', JStr ?token)])) ! p
           = Resolved data"
      by (intro allI) (rule result_settles(1) [OF k, unfolded success_payload_def])
    show "\<forall>error. futures (messageHandler env st'
            (JObj [(''type'', JStr ''call-result''), (''result'', JStr ''fail''),
                   (''error'', error), (''token'', JStr ?token)])) ! p
           = Rejected error"
      by (intro allI) (rule result_settles(2) [OF k, unfolded fail_payload_def])
    show "\<forall>i<length args. typeof (args ! i) = TFunction
           \<and> (\<forall>j<length args. i < j \<and> typeof (args ! j) = TFunction \<longrightarrow>
                  callback_token env (draws st) args j \<noteq> callback_token env (draws st) args i)
           \<longrightarrow> callMap st' (''callback-'' @ callback_token env (draws st) args i)
                 = Some (args ! i)"
      unfolding cm using marshal_args_registered [OF m] by blast
    from sp have "draws st1 = draws st + length (filter (\<lambda>a. typeof a = TFunction) args)"
      by (rule conjunct2 [THEN conjunct2, THEN conjunct1])
    then show "draws st' = Suc (draws st + length (filter (\<lambda>a. typeof a = TFunction) args))"
      using r by (simp add: new_promise_def postMessage_def)
    show "\<forall>i<length args. callback_token env (draws st) args i
           = to_radix 36 (Date_now env
                 (draws st + length (filter (\<lambda>a. typeof a = TFunction) (take i args))))
             @ random_digits env
                 (draws st + length (filter (\<lambda>a. typeof a = TFunction) (take i args)))"
      by (simp add: callback_token_def token_at_def)
    show "?token
           = to_radix 36 (Date_now env
                 (draws st + length (filter (\<lambda>a. typeof a = TFunction) args)))
             @ random_digits env
                 (draws st + length (filter (\<lambda>a. typeof a = TFunction) args))"
      by (simp add: call_token_def token_at_def)
    show "sent st' = sent st @
           [JObj [(''type'', JStr ''call''), (''method'', JStr methodName),
                  (''args'', JArr args'), (''token'', JStr ?token)]]"
      by (fact se' [unfolded call_payload_def])
    show "p = length (futures st)" by (fact p)
    show "futures st' = futures st @ [Pending]" by (fact fs)
    show "promiseMap st' = (promiseMap st)(?token \<mapsto> p)" by (fact pm')
  qed
  show ?thesis by (rule exI [where x = args']) (rule body)
qed

text \<open>
  On the example instance, \<^verbatim>\<open>callProxy.foo(1, f, "a", g)\<close> with the functions \<open>f\<close> and
  \<open>g\<close> draws \<^verbatim>\<open>rsx\<close> and \<^verbatim>\<open>rtx\<close> for them and \<^verbatim>\<open>rux\<close> for the call.
\<close>

theorem callProxy_call_witness:
  "adapter_defined example_rpc
   \<and> sent (snd (callProxy example_env example_rpc ''foo'' [JNum 1, JFun 5, JStr ''a'', JFun 6]))
      = [JObj [(''type'', JStr ''call''), (''method'', JStr ''foo''),
               (''args'', JArr
                  [JNum 1,
                   JObj [(''__rpc_callback__'', JBool True),
                         (''callbackMethodName'', JStr ''callback-rsx'')],
                   JStr ''a'',
                   JObj [(''__rpc_callback__'', JBool True),
                         (''callbackMethodName'', JStr ''callback-rtx'')]]),
               (''token'', JStr ''rux'')]]
   \<and> callMap (snd (callProxy example_env example_rpc ''foo'' [JNum 1, JFun 5, JStr ''a'', JFun 6]))
        ''callback-rsx'' = Some (JFun 5)
   \<and> callMap (snd (callProxy example_env example_rpc ''foo'' [JNum 1, JFun 5, JStr ''a'', JFun 6]))
        ''callback-rtx'' = Some (JFun 6)
   \<and> promiseMap (snd (callProxy example_env example_rpc ''foo'' [JNum 1, JFun 5, JStr ''a'', JFun 6]))
        ''rux'' = Some 0
   \<and> futures (messageHandler example_env
        (snd (callProxy example_env example_rpc ''foo'' [JNum 1, JFun 5, JStr ''a'', JFun 6]))
        (JObj [(''type'', JStr ''call-result''), (''result'', JStr ''success''),
               (''data'', JNum 3), (''token'', JStr ''rux'')])) ! 0 = Resolved (JNum 3)"
proof -
  let ?args = "[JNum 1, JFun 5, JStr ''a'', JFun 6]"
  let ?r = "callProxy example_env example_rpc ''foo'' ?args"
  have c: "?r = (fst ?r, snd ?r)" by simp
  have a: "adapter_defined example_rpc" by (simp add: example_rpc_fields)
  have tk: "call_token example_env 0 ?args = ''rux''"
    by (simp add: call_token_def token_at_def example_env_def digit_char_def)
  from callProxy_call [OF c a]
  have p: "fst ?r = length (futures example_rpc)"
    and s: "\<forall>data. futures (messageHandler example_env (snd ?r)
              (JObj [(''type'', JStr ''call-result''), (''result'', JStr ''success''),
                     (''data'', data),
                     (''token'', JStr (call_token example_env (draws example_rpc) ?args))]))
            ! fst ?r = Resolved data"
    by blast+
  have last: "futures (messageHandler example_env (snd ?r)
        (JObj [(''type'', JStr ''call-result''), (''result'', JStr ''success''),
               (''data'', JNum 3), (''token'', JStr ''rux'')])) ! 0 = Resolved (JNum 3)"
    using s p by (simp add: tk example_rpc_fields)
  have ev: "sent (snd ?r)
      = [JObj [(''type'', JStr ''call''), (''method'', JStr ''foo''),
               (''args'', JArr
                  [JNum 1,
                   JObj [(''__rpc_callback__'', JBool True),
                         (''callbackMethodName'', JStr ''callback-rsx'')],
                   JStr ''a'',
                   JObj [(''__rpc_callback__'', JBool True),
                         (''callbackMethodName'', JStr ''callback-rtx'')]]),
               (''token'', JStr ''rux'')]]"
    "callMap (snd ?r) ''callback-rsx'' = Some (JFun 5)"
    "callMap (snd ?r) ''callback-rtx'' = Some (JFun 6)"
    "promiseMap (snd ?r) ''rux'' = Some 0"
    by (simp_all add: callProxy_def generateToken_def token_at_def example_env_def Let_def
        example_rpc_fields new_promise_def postMessage_def digit_char_def call_payload_def
        callback_reference_def)
  show ?thesis using a last ev by (intro conjI)
qed

end
